theory Spec2Isabelle
  imports Complex_Main
begin

text \<open>
  A shallow embedding of the Antigravity provider of litellm: the token cache and the
  account store of \<open>authenticator.py\<close>, the rate-limit ledger and the account selector
  of \<open>account_manager.py\<close>, the reset-time parser and the model-name tests of
  \<open>common_utils.py\<close>, and the generation config, the response translation and the
  schema sanitizer of \<open>chat/transformation.py\<close>. The definitions come first, the
  properties after them.
\<close>

section \<open>Strings\<close>

text \<open>
  Python strings are sequences of code points; they are modelled as \<open>string\<close>, one
  \<open>char\<close> per code point (code points up to 255). Every string the code searches for
  is ASCII, and outside ASCII no code point of that range lowers to an ASCII letter, so
  \<open>str.lower()\<close> and \<open>re.IGNORECASE\<close> are modelled by lowering the letters A to Z.
\<close>

definition lower_char :: "char \<Rightarrow> char" where
  "lower_char c =
     (if 65 \<le> (of_char c :: nat) \<and> (of_char c :: nat) \<le> 90
      then char_of (of_char c + 32 :: nat) else c)"

definition lower :: "string \<Rightarrow> string" where
  "lower s = map lower_char s"

text \<open>\<open>s.startswith(p)\<close>.\<close>

fun startswith :: "string \<Rightarrow> string \<Rightarrow> bool" where
  "startswith s [] = True"
| "startswith [] (p # ps) = False"
| "startswith (c # cs) (p # ps) = (c = p \<and> startswith cs ps)"

text \<open>A prefix test that compares the characters without regard to case.\<close>

fun startswith_ic :: "string \<Rightarrow> string \<Rightarrow> bool" where
  "startswith_ic s [] = True"
| "startswith_ic [] (p # ps) = False"
| "startswith_ic (c # cs) (p # ps) = (lower_char c = lower_char p \<and> startswith_ic cs ps)"

text \<open>\<open>sub in s\<close> on strings: \<open>sub\<close> occurs in \<open>s\<close> as a contiguous substring.\<close>

fun str_in :: "string \<Rightarrow> string \<Rightarrow> bool" where
  "str_in sub [] = (sub = [])"
| "str_in sub (c # cs) = (startswith (c # cs) sub \<or> str_in sub cs)"

text \<open>\<open>s.endswith(p)\<close>.\<close>

definition endswith :: "string \<Rightarrow> string \<Rightarrow> bool" where
  "endswith s p = startswith (rev s) (rev p)"

section \<open>Double arithmetic\<close>

text \<open>
  Python floats are IEEE doubles. A double operation yields the exact result rounded
  to the nearest number with a significand of 53 bits, ties to the even significand.
  \<open>fl\<close> is that rounding on the reals. The exponent is not bounded in the model: it
  agrees with the machine on results of a magnitude from \<open>2 ^ -1022\<close> up to \<open>2 ^ 1023\<close>
  and on zero, far more than any clock reading or lifetime; beyond, the machine
  overflows or drops bits.
\<close>

text \<open>The integer nearest to \<open>y\<close>, the even one of two that are equally near.\<close>

definition rne :: "real \<Rightarrow> int" where
  "rne y =
     (if y - of_int \<lfloor>y\<rfloor> < 1 / 2 then \<lfloor>y\<rfloor>
      else if y - of_int \<lfloor>y\<rfloor> > 1 / 2 then \<lfloor>y\<rfloor> + 1
      else if even \<lfloor>y\<rfloor> then \<lfloor>y\<rfloor> else \<lfloor>y\<rfloor> + 1)"

text \<open>The binary exponent of a positive number: \<open>2 powi expo x \<le> x < 2 powi (expo x + 1)\<close>.\<close>

function expo :: "real \<Rightarrow> int" where
  "expo x = (if 2 \<le> x then expo (x / 2) + 1 else if 0 < x \<and> x < 1 then expo (2 * x) - 1 else 0)"
  by pat_completeness auto
termination
proof (relation "measure (\<lambda>x. nat \<bar>\<lfloor>log 2 x\<rfloor>\<bar>)")
  show "wf (measure (\<lambda>x. nat \<bar>\<lfloor>log 2 x\<rfloor>\<bar>))" by simp
next
  fix x :: real
  assume x: "2 \<le> x"
  have "log 2 (x / 2) = log 2 x - 1"
    using x by (simp add: log_divide)
  moreover have "1 \<le> log 2 x"
    using x by (simp add: le_log_iff)
  ultimately have "\<lfloor>log 2 (x / 2)\<rfloor> = \<lfloor>log 2 x\<rfloor> - 1" and "1 \<le> \<lfloor>log 2 x\<rfloor>"
    by (simp, simp add: le_floor_iff)
  then have "\<bar>\<lfloor>log 2 (x / 2)\<rfloor>\<bar> < \<bar>\<lfloor>log 2 x\<rfloor>\<bar>"
    by linarith
  then show "(x / 2, x) \<in> measure (\<lambda>x. nat \<bar>\<lfloor>log 2 x\<rfloor>\<bar>)" by simp
next
  fix x :: real
  assume "\<not> 2 \<le> x" and x: "0 < x \<and> x < 1"
  have "log 2 (2 * x) = log 2 x + 1"
    using x by (simp add: log_mult)
  moreover have "log 2 x < 0"
    using x by simp
  ultimately have "\<lfloor>log 2 (2 * x)\<rfloor> = \<lfloor>log 2 x\<rfloor> + 1" and "\<lfloor>log 2 x\<rfloor> < 0"
    by (simp, simp add: floor_less_iff)
  then have "\<bar>\<lfloor>log 2 (2 * x)\<rfloor>\<bar> < \<bar>\<lfloor>log 2 x\<rfloor>\<bar>"
    by linarith
  then show "(2 * x, x) \<in> measure (\<lambda>x. nat \<bar>\<lfloor>log 2 x\<rfloor>\<bar>)" by simp
qed

declare expo.simps [simp del]

definition fl :: "real \<Rightarrow> real" where
  "fl x =
     (if x = 0 then 0
      else sgn x * of_int (rne (\<bar>x\<bar> / 2 powi (expo \<bar>x\<bar> - 52))) * 2 powi (expo \<bar>x\<bar> - 52))"

text \<open>
  \<open>float(n)\<close> for an integer, and the sum and the difference of two doubles as the
  machine computes them.
\<close>

definition float_of_int :: "int \<Rightarrow> real" where
  "float_of_int n = fl (real_of_int n)"

definition fadd :: "real \<Rightarrow> real \<Rightarrow> real" where
  "fadd x y = fl (x + y)"

definition fsub :: "real \<Rightarrow> real \<Rightarrow> real" where
  "fsub x y = fl (x - y)"

section \<open>Token cache (authenticator.py, class TokenCache)\<close>

text \<open>
  A clock reading is the double that \<open>time.time()\<close> returns, in seconds. An entry is the
  dict \<open>{"access_token": _, "expires_at": _}\<close>; the cache is the dict from email to
  entry.
\<close>

record token_entry =
  access_token :: string
  expires_at :: real

type_synonym token_cache = "string \<rightharpoonup> token_entry"

text \<open>
  \<open>TokenCache.get\<close>; \<open>now\<close> is the reading of \<open>time.time()\<close>. An entry is a dict of two
  keys, so \<open>if entry\<close> only tests that the email is present.
\<close>

definition TokenCache_get :: "token_cache \<Rightarrow> real \<Rightarrow> string \<Rightarrow> string option" where
  "TokenCache_get cache now em =
     (case cache em of
        None \<Rightarrow> None
      | Some entry \<Rightarrow> if expires_at entry > now then Some (access_token entry) else None)"

text \<open>
  \<open>TokenCache.set\<close>; \<open>now\<close> is the reading of \<open>time.time()\<close>. The expiry is
  \<open>time.time() + expires_in - 60\<close> in double arithmetic: the integer lifetime is
  converted, added, and 60 is subtracted from the rounded sum.
\<close>

definition TokenCache_set :: "token_cache \<Rightarrow> real \<Rightarrow> string \<Rightarrow> string \<Rightarrow> int \<Rightarrow> token_cache" where
  "TokenCache_set cache now em tok expires_in =
     cache(em \<mapsto> \<lparr>access_token = tok,
                   expires_at = fsub (fadd now (float_of_int expires_in)) 60\<rparr>)"

text \<open>\<open>TokenCache.clear\<close>: an empty email is falsy and clears the whole cache.\<close>

definition TokenCache_clear :: "token_cache \<Rightarrow> string option \<Rightarrow> token_cache" where
  "TokenCache_clear cache em =
     (case em of
        None \<Rightarrow> Map.empty
      | Some e \<Rightarrow> if e = [] then Map.empty else cache(e := None))"

section \<open>Reset-time parsing (common_utils.py, parse_reset_time_from_error)\<close>

text \<open>
  The regular expressions the code hands to \<open>re.search\<close> are sequences of three kinds
  of item: literal text, the group \<open>(\d+)\<close> and an optional character class such as
  \<open>[.-]?\<close>.
\<close>

datatype re_item = Lit string | Digits | OptCls "char list"

definition is_digit :: "char \<Rightarrow> bool" where
  "is_digit c = (let n = (of_char c :: nat) in 48 \<le> n \<and> n \<le> 57)"

text \<open>The text of a pattern, as the code writes it.\<close>

fun re_source :: "re_item list \<Rightarrow> string" where
  "re_source [] = []"
| "re_source (Lit l # p) = l @ re_source p"
| "re_source (Digits # p) = ''('' @ [CHR 0x5C] @ ''d+)'' @ re_source p"
| "re_source (OptCls cs # p) = ''['' @ cs @ '']?'' @ re_source p"

text \<open>
  \<open>re_match_here ic p s\<close>: the groups of the match of \<open>p\<close> that starts at the first
  character of \<open>s\<close>, if there is one; \<open>ic\<close> is the flag \<open>re.IGNORECASE\<close>. A group takes
  the longest run of digits. In every pattern of this program a group is followed by a
  literal that starts with a letter, or ends the pattern, so no shorter run can lead to
  a match and the longest run is the one \<open>re\<close> reports. An optional class is tried
  taken first, then skipped.
\<close>

fun re_match_here :: "bool \<Rightarrow> re_item list \<Rightarrow> string \<Rightarrow> string list option" where
  "re_match_here ic [] s = Some []"
| "re_match_here ic (Lit l # p) s =
     (if (if ic then startswith_ic s l else startswith s l)
      then re_match_here ic p (drop (length l) s) else None)"
| "re_match_here ic (Digits # p) s =
     (if takeWhile is_digit s = [] then None
      else map_option ((#) (takeWhile is_digit s)) (re_match_here ic p (dropWhile is_digit s)))"
| "re_match_here ic (OptCls cs # p) [] = re_match_here ic p []"
| "re_match_here ic (OptCls cs # p) (c # s) =
     (if c \<in> set cs
      then (case re_match_here ic p s of Some g \<Rightarrow> Some g | None \<Rightarrow> re_match_here ic p (c # s))
      else re_match_here ic p (c # s))"

text \<open>\<open>re.search\<close>: the match at the leftmost position that has one.\<close>

fun re_search :: "bool \<Rightarrow> re_item list \<Rightarrow> string \<Rightarrow> string list option" where
  "re_search ic p [] = re_match_here ic p []"
| "re_search ic p (c # s) =
     (case re_match_here ic p (c # s) of Some g \<Rightarrow> Some g | None \<Rightarrow> re_search ic p s)"

text \<open>\<open>int(ds)\<close> on a string of decimal digits.\<close>

definition int_of_digits :: "string \<Rightarrow> int" where
  "int_of_digits ds = foldl (\<lambda>n c. 10 * n + (int (of_char c) - 48)) 0 ds"

definition reset_patterns :: "re_item list list" where
  "reset_patterns =
     [[Lit ''reset after '', Digits, Lit ''h'', Digits, Lit ''m'', Digits, Lit ''s''],
      [Lit ''reset after '', Digits, Lit ''h'', Digits, Lit ''m''],
      [Lit ''reset after '', Digits, Lit ''h''],
      [Lit ''reset after '', Digits, Lit ''m'', Digits, Lit ''s''],
      [Lit ''reset after '', Digits, Lit ''m''],
      [Lit ''reset after '', Digits, Lit ''s'']]"

text \<open>The milliseconds computed from the groups of a match of \<open>pattern\<close>.\<close>

definition reset_ms_of_groups :: "re_item list \<Rightarrow> string list \<Rightarrow> int" where
  "reset_ms_of_groups pattern groups =
     (if length groups = 3
      then int_of_digits (groups ! 0) * 3600000 + int_of_digits (groups ! 1) * 60000
           + int_of_digits (groups ! 2) * 1000
      else if length groups = 2
      then (if str_in ''h'' (re_source pattern) \<and> str_in ''m'' (re_source pattern)
            then int_of_digits (groups ! 0) * 3600000 + int_of_digits (groups ! 1) * 60000
            else int_of_digits (groups ! 0) * 60000 + int_of_digits (groups ! 1) * 1000)
      else (if str_in ''h'' (re_source pattern) then int_of_digits (groups ! 0) * 3600000
            else if str_in ''m'' (re_source pattern) then int_of_digits (groups ! 0) * 60000
            else int_of_digits (groups ! 0) * 1000))"

text \<open>The loop over the patterns: the first pattern that matches decides.\<close>

fun parse_reset_loop :: "re_item list list \<Rightarrow> string \<Rightarrow> int option" where
  "parse_reset_loop [] error_text = None"
| "parse_reset_loop (pattern # patterns) error_text =
     (case re_search True pattern error_text of
        Some groups \<Rightarrow> Some (reset_ms_of_groups pattern groups)
      | None \<Rightarrow> parse_reset_loop patterns error_text)"

definition parse_reset_time_from_error :: "string \<Rightarrow> int option" where
  "parse_reset_time_from_error error_text = parse_reset_loop reset_patterns error_text"

section \<open>Model names (common_utils.py)\<close>

datatype model_family = Claude | Gemini | Unknown

definition get_model_family :: "string \<Rightarrow> model_family" where
  "get_model_family model_name =
     (if str_in ''claude'' (lower model_name) then Claude
      else if str_in ''gemini'' (lower model_name) then Gemini
      else Unknown)"

definition is_thinking_model :: "string \<Rightarrow> bool" where
  "is_thinking_model model_name =
     (if str_in ''claude'' (lower model_name) \<and> str_in ''thinking'' (lower model_name) then True
      else if str_in ''gemini'' (lower model_name)
      then (if str_in ''thinking'' (lower model_name) then True
            else (case re_search False [Lit ''gemini'', OptCls ''.-'', Digits] (lower model_name) of
                    Some groups \<Rightarrow> int_of_digits (groups ! 0) \<ge> 3
                  | None \<Rightarrow> False))
      else False)"

definition GEMINI_MAX_OUTPUT_TOKENS :: int where
  "GEMINI_MAX_OUTPUT_TOKENS = 16384"

definition DEFAULT_COOLDOWN_MS :: int where
  "DEFAULT_COOLDOWN_MS = 60 * 1000"

section \<open>Python dicts and truthiness\<close>

text \<open>
  A dict whose entries are iterated is an association list in insertion order with
  distinct keys. \<open>d[k] = v\<close> replaces the value of a key that is present, in place, and
  appends a new key.
\<close>

fun dict_set :: "('k \<times> 'v) list \<Rightarrow> 'k \<Rightarrow> 'v \<Rightarrow> ('k \<times> 'v) list" where
  "dict_set [] k v = [(k, v)]"
| "dict_set ((k', v') # kvs) k v =
     (if k' = k then (k, v) # kvs else (k', v') # dict_set kvs k v)"

text \<open>\<open>x or d\<close> for an optional integer: \<open>None\<close> and \<open>0\<close> are both falsy.\<close>

definition int_or :: "int option \<Rightarrow> int \<Rightarrow> int" where
  "int_or x d = (case x of None \<Rightarrow> d | Some v \<Rightarrow> if v = 0 then d else v)"

text \<open>The truth value of an optional string: \<open>None\<close> and \<open>""\<close> are falsy.\<close>

definition str_truthy :: "string option \<Rightarrow> bool" where
  "str_truthy x = (case x of None \<Rightarrow> False | Some v \<Rightarrow> v \<noteq> [])"

text \<open>\<open>int(x)\<close> on a float: truncation towards zero.\<close>

definition py_int :: "real \<Rightarrow> int" where
  "py_int x = (if x \<ge> 0 then \<lfloor>x\<rfloor> else \<lceil>x\<rceil>)"

section \<open>Accounts and the authenticator (authenticator.py)\<close>

text \<open>
  An account is a dict with the key \<open>email\<close> and the optional keys \<open>refresh_token\<close>,
  \<open>project_id\<close>, \<open>is_invalid\<close> and \<open>invalid_reason\<close>; an absent key (or a null value) is
  \<open>None\<close>.
\<close>

record account =
  email :: string
  refresh_token :: "string option"
  project_id :: "string option"
  is_invalid :: "bool option"
  invalid_reason :: "string option"

text \<open>
  Account dicts are mutable objects that several lists refer to: \<open>get_accounts\<close> returns
  \<open>self._accounts.copy()\<close>, a new list of the same dict objects. The model keeps the
  objects in a store, \<open>heap\<close>, and the lists hold references into it. \<open>accounts_file\<close> is
  the \<open>accounts\<close> array of the document at \<open>ANTIGRAVITY_ACCOUNTS_FILE\<close> (\<open>None\<close>: no such
  file).
\<close>

type_synonym ref = nat

record authenticator =
  heap :: "ref \<Rightarrow> account"
  next_ref :: ref
  accounts :: "ref list"
  accounts_file :: "account list option"
  token_cache :: token_cache
  project_cache :: "string \<rightharpoonup> string"

text \<open>A new dict object: the next unused reference holds it.\<close>

definition new_dict :: "authenticator \<Rightarrow> account \<Rightarrow> ref \<times> authenticator" where
  "new_dict a acct =
     (next_ref a, a\<lparr>heap := (heap a)(next_ref a := acct), next_ref := Suc (next_ref a)\<rparr>)"

definition blank_account :: account where
  "blank_account =
     \<lparr>email = [], refresh_token = None, project_id = None, is_invalid = None,
      invalid_reason = None\<rparr>"

text \<open>
  \<open>Authenticator.__init__\<close> with \<open>_load_accounts\<close>: the accounts of the document become
  dict objects, in order; without a readable document the list stays empty.
\<close>

fun load_dicts :: "authenticator \<Rightarrow> account list \<Rightarrow> authenticator" where
  "load_dicts a [] = a"
| "load_dicts a (acct # accts) =
     (let (r, a') = new_dict a acct in load_dicts (a'\<lparr>accounts := accounts a' @ [r]\<rparr>) accts)"

definition Authenticator_init :: "account list option \<Rightarrow> authenticator" where
  "Authenticator_init doc =
     load_dicts
       \<lparr>heap = (\<lambda>r. blank_account), next_ref = 0, accounts = [], accounts_file = doc,
        token_cache = Map.empty, project_cache = Map.empty\<rparr>
       (case doc of None \<Rightarrow> [] | Some accts \<Rightarrow> accts)"

text \<open>\<open>_save_accounts\<close>: \<open>json.dump\<close> writes every key of every account dict.\<close>

definition save_accounts :: "authenticator \<Rightarrow> authenticator" where
  "save_accounts a = a\<lparr>accounts_file := Some (map (heap a) (accounts a))\<rparr>"

definition get_accounts :: "authenticator \<Rightarrow> ref list" where
  "get_accounts a = accounts a"

text \<open>What the OAuth exchange of an add-account flow hands to the store.\<close>

record grant =
  grant_email :: string
  grant_access_token :: string
  grant_refresh_token :: "string option"
  grant_expires_in :: int
  grant_project_id :: "string option"

datatype error =
  AntigravityAuthError nat string
| AntigravityInvalidCredentialsError nat string

text \<open>
  \<open>add_account_interactive\<close>. The browser flow, the code exchange, the userinfo call and
  the project discovery are the environment: \<open>flow\<close> is what they yield, an error raised
  before the store is touched or a grant. \<open>now\<close> is the clock reading of the token cache.
\<close>

definition add_account_interactive ::
  "authenticator \<Rightarrow> real \<Rightarrow> error + grant \<Rightarrow> (error + string \<times> string) \<times> authenticator" where
  "add_account_interactive a now flow =
     (case flow of
        Inl e \<Rightarrow> (Inl e, a)
      | Inr g \<Rightarrow>
          (let a1 =
                 (case find (\<lambda>r. email (heap a r) = grant_email g) (accounts a) of
                    Some existing \<Rightarrow>
                      a\<lparr>heap := (heap a)(existing := (heap a existing)
                            \<lparr>refresh_token := grant_refresh_token g,
                             project_id := grant_project_id g\<rparr>)\<rparr>
                  | None \<Rightarrow>
                      (let (r, a') =
                             new_dict a
                               \<lparr>email = grant_email g, refresh_token = grant_refresh_token g,
                                project_id = grant_project_id g, is_invalid = None,
                                invalid_reason = None\<rparr>
                       in a'\<lparr>accounts := accounts a' @ [r]\<rparr>));
               a2 = save_accounts a1;
               a3 = a2\<lparr>token_cache :=
                         TokenCache_set (token_cache a2) now (grant_email g)
                           (grant_access_token g) (grant_expires_in g)\<rparr>
           in (Inr (grant_email g, case grant_project_id g of None \<Rightarrow> [] | Some p \<Rightarrow> p), a3)))"

definition DEFAULT_PROJECT_ID :: string where
  "DEFAULT_PROJECT_ID = ''rising-fact-p41fc''"

text \<open>
  \<open>get_project_for_account\<close>; \<open>acct\<close> refers to the account dict passed in and
  \<open>discovered\<close> is what \<open>discover_project_id(token)\<close> returns.
\<close>

definition get_project_for_account ::
  "authenticator \<Rightarrow> ref \<Rightarrow> string option \<Rightarrow> string \<times> authenticator" where
  "get_project_for_account a acct discovered =
     (let em = email (heap a acct) in
      if str_truthy (project_cache a em) then (the (project_cache a em), a)
      else if str_truthy (project_id (heap a acct))
      then (the (project_id (heap a acct)),
            a\<lparr>project_cache := (project_cache a)(em \<mapsto> the (project_id (heap a acct)))\<rparr>)
      else if str_truthy discovered
      then (the discovered,
            save_accounts
              (a\<lparr>project_cache := (project_cache a)(em \<mapsto> the discovered),
                 heap := (heap a)(acct := (heap a acct)\<lparr>project_id := discovered\<rparr>)\<rparr>))
      else (DEFAULT_PROJECT_ID, a))"

text \<open>\<open>ProjectCache.clear\<close>, with the same falsy empty email as the token cache.\<close>

definition ProjectCache_clear :: "(string \<rightharpoonup> string) \<Rightarrow> string option \<Rightarrow> (string \<rightharpoonup> string)" where
  "ProjectCache_clear cache em =
     (case em of
        None \<Rightarrow> Map.empty
      | Some e \<Rightarrow> if e = [] then Map.empty else cache(e := None))"

definition remove_account :: "authenticator \<Rightarrow> string \<Rightarrow> bool \<times> authenticator" where
  "remove_account a em =
     (let a1 = a\<lparr>accounts := filter (\<lambda>r. email (heap a r) \<noteq> em) (accounts a)\<rparr> in
      if length (accounts a1) < length (accounts a)
      then (True,
            (save_accounts a1)
              \<lparr>token_cache := TokenCache_clear (token_cache a1) (Some em),
               project_cache := ProjectCache_clear (project_cache a1) (Some em)\<rparr>)
      else (False, a1))"

text \<open>
  The store update of \<open>antigravity_auth_callback\<close> (endpoints.py), after its OAuth calls
  have yielded a grant: it works on the copy that \<open>get_accounts\<close> returns, removes
  \<open>is_invalid\<close> from an account that signs in again, and installs the copy.
\<close>

definition auth_callback_store :: "authenticator \<Rightarrow> real \<Rightarrow> grant \<Rightarrow> authenticator" where
  "auth_callback_store a now g =
     (let a1 =
            (case find (\<lambda>r. email (heap a r) = grant_email g) (get_accounts a) of
               Some existing \<Rightarrow>
                 a\<lparr>heap := (heap a)(existing := (heap a existing)
                       \<lparr>refresh_token := grant_refresh_token g,
                        project_id := grant_project_id g, is_invalid := None\<rparr>),
                   accounts := get_accounts a\<rparr>
             | None \<Rightarrow>
                 (let (r, a') =
                        new_dict a
                          \<lparr>email = grant_email g, refresh_token = grant_refresh_token g,
                           project_id = grant_project_id g, is_invalid = None,
                           invalid_reason = None\<rparr>
                  in a'\<lparr>accounts := get_accounts a @ [r]\<rparr>));
          a2 = save_accounts a1
      in a2\<lparr>token_cache :=
              TokenCache_set (token_cache a2) now (grant_email g) (grant_access_token g)
                (grant_expires_in g)\<rparr>)"

section \<open>Account manager (account_manager.py)\<close>

text \<open>
  A ledger entry is the dict \<open>{"reset_time": _, "model_id": _}\<close>; \<open>_rate_limits\<close> is the
  dict from key to entry. Times of the ledger are milliseconds: wherever the code reads
  the clock it takes \<open>time.time() * 1000\<close>, and that double is the reading \<open>now\<close> of the
  model. Sums and differences of ledger times are taken exactly, as the double
  operations are for the readings of this era (\<open>ledger_sum_exact\<close>, \<open>ledger_diff_exact\<close>).
\<close>

record limit =
  reset_time :: real
  model_id :: "string option"

type_synonym ledger = "(string \<times> limit) list"

record account_manager =
  authenticator_of :: authenticator
  current_index :: nat
  rate_limits :: ledger

definition AccountManager_init :: "account list option \<Rightarrow> account_manager" where
  "AccountManager_init doc =
     \<lparr>authenticator_of = Authenticator_init doc, current_index = 0, rate_limits = []\<rparr>"

definition get_rate_limit_key :: "string \<Rightarrow> string option \<Rightarrow> string" where
  "get_rate_limit_key em mid = (if str_truthy mid then em @ '':'' @ the mid else em)"

text \<open>
  \<open>_is_account_rate_limited\<close> reads the clock once for each key it finds: \<open>now1\<close> and
  \<open>now2\<close> are the two readings of \<open>time.time() * 1000\<close>.
\<close>

definition is_account_rate_limited ::
  "ledger \<Rightarrow> account \<Rightarrow> string option \<Rightarrow> real \<Rightarrow> real \<Rightarrow> bool" where
  "is_account_rate_limited rl acct mid now1 now2 =
     (if (case map_of rl (get_rate_limit_key (email acct) mid) of
            Some l \<Rightarrow> reset_time l > now1
          | None \<Rightarrow> False)
      then True
      else (case map_of rl (get_rate_limit_key (email acct) None) of
              Some l \<Rightarrow> reset_time l > now2
            | None \<Rightarrow> False))"

definition is_account_invalid :: "account \<Rightarrow> bool" where
  "is_account_invalid acct = (case is_invalid acct of None \<Rightarrow> False | Some b \<Rightarrow> b)"

text \<open>\<open>clear_expired_limits\<close>; \<open>now\<close> is the reading of \<open>time.time() * 1000\<close>.\<close>

definition clear_expired_limits :: "ledger \<Rightarrow> real \<Rightarrow> nat \<times> ledger" where
  "clear_expired_limits rl now =
     (length (filter (\<lambda>(k, v). reset_time v \<le> now) rl),
      filter (\<lambda>(k, v). \<not> reset_time v \<le> now) rl)"

text \<open>\<open>mark_rate_limited\<close>; \<open>now\<close> is the reading of \<open>time.time() * 1000\<close>.\<close>

definition mark_rate_limited ::
  "ledger \<Rightarrow> real \<Rightarrow> string \<Rightarrow> int option \<Rightarrow> string option \<Rightarrow> ledger" where
  "mark_rate_limited rl now em reset_ms mid =
     dict_set rl (get_rate_limit_key em mid)
       \<lparr>reset_time = now + real_of_int (int_or reset_ms DEFAULT_COOLDOWN_MS),
        model_id = mid\<rparr>"

text \<open>
  \<open>mark_invalid\<close>: the loop runs over the copy returned by \<open>get_accounts\<close> and writes
  into the first dict with the email, which is the dict the authenticator's own list
  refers to.
\<close>

definition mark_invalid :: "account_manager \<Rightarrow> string \<Rightarrow> string \<Rightarrow> account_manager" where
  "mark_invalid m em reason =
     (let a = authenticator_of m in
      case find (\<lambda>r. email (heap a r) = em) (get_accounts a) of
        None \<Rightarrow> m
      | Some r \<Rightarrow>
          m\<lparr>authenticator_of :=
              a\<lparr>heap := (heap a)(r := (heap a r)
                    \<lparr>is_invalid := Some True, invalid_reason := Some reason\<rparr>)\<rparr>\<rparr>)"

text \<open>
  \<open>get_min_wait_time_ms\<close>. The loop keeps \<open>min_wait\<close>, with \<open>None\<close> for
  \<open>float("inf")\<close>; \<open>now\<close> is the reading of \<open>time.time() * 1000\<close>.
\<close>

fun min_wait_loop :: "ledger \<Rightarrow> real \<Rightarrow> string option \<Rightarrow> real option \<Rightarrow> real option" where
  "min_wait_loop [] now mid min_wait = min_wait"
| "min_wait_loop ((key, l) # rest) now mid min_wait =
     (if str_truthy mid \<and> \<not> str_in ('':'' @ the mid) key \<and> str_in '':'' key
      then min_wait_loop rest now mid min_wait
      else if reset_time l > now
      then min_wait_loop rest now mid
             (Some (case min_wait of
                      None \<Rightarrow> reset_time l - now
                    | Some w \<Rightarrow> min w (reset_time l - now)))
      else min_wait_loop rest now mid min_wait)"

definition get_min_wait_time_ms :: "ledger \<Rightarrow> real \<Rightarrow> string option \<Rightarrow> int" where
  "get_min_wait_time_ms rl now mid =
     (case min_wait_loop rl now mid None of
        None \<Rightarrow> 0
      | Some w \<Rightarrow> py_int w)"

text \<open>
  \<open>pick_next\<close>. \<open>clk j\<close> gives the two clock readings (\<open>time.time() * 1000\<close>) that the
  rate-limit check of loop iteration \<open>j\<close> may make. \<open>pick_next_loop\<close> is the \<open>for\<close> loop with \<open>k\<close> iterations left;
  it yields the account returned and the index reached, or \<open>None\<close> when the loop runs
  out.
\<close>

fun pick_next_loop ::
  "authenticator \<Rightarrow> ledger \<Rightarrow> string option \<Rightarrow> (nat \<Rightarrow> real \<times> real) \<Rightarrow> ref list \<Rightarrow> nat \<Rightarrow> nat
   \<Rightarrow> (ref \<times> nat) option" where
  "pick_next_loop a rl mid clk accts 0 idx = None"
| "pick_next_loop a rl mid clk accts (Suc k) idx =
     (let idx' = (idx + 1) mod length accts;
          acct = accts ! idx';
          (now1, now2) = clk (length accts - Suc k)
      in if \<not> is_account_rate_limited rl (heap a acct) mid now1 now2
            \<and> \<not> is_account_invalid (heap a acct)
         then Some (acct, idx')
         else pick_next_loop a rl mid clk accts k idx')"

definition pick_next ::
  "account_manager \<Rightarrow> string option \<Rightarrow> (nat \<Rightarrow> real \<times> real) \<Rightarrow> ref option \<times> account_manager" where
  "pick_next m mid clk =
     (let accts = get_accounts (authenticator_of m) in
      if accts = [] then (None, m)
      else (case pick_next_loop (authenticator_of m) (rate_limits m) mid clk accts
                   (length accts) (current_index m) of
              Some (acct, idx) \<Rightarrow> (Some acct, m\<lparr>current_index := idx\<rparr>)
            | None \<Rightarrow> (None, m)))"

text \<open>Successive calls of \<open>pick_next\<close>, one clock per call: each result with the state it leaves.\<close>

fun pick_next_calls ::
  "account_manager \<Rightarrow> string option \<Rightarrow> (nat \<Rightarrow> real \<times> real) list
   \<Rightarrow> (ref option \<times> account_manager) list" where
  "pick_next_calls m mid [] = []"
| "pick_next_calls m mid (clk # clks) =
     (let (r, m') = pick_next m mid clk in (r, m') # pick_next_calls m' mid clks)"

section \<open>Operations on the account store\<close>

text \<open>
  The operations that change the account store or write the accounts file, as
  events: \<open>mark_invalid\<close>, the two ways to add an account (\<open>add_account_interactive\<close>
  and the OAuth callback of the proxy), \<open>remove_account\<close>, \<open>get_project_for_account\<close>
  with its project discovery, and \<open>_save_accounts\<close> itself.
\<close>

datatype store_op =
  MarkInvalid string string
| AddAccountInteractive real "error + grant"
| AuthCallback real grant
| RemoveAccount string
| GetProject ref "string option"
| SaveAccounts

fun store_step :: "account_manager \<Rightarrow> store_op \<Rightarrow> account_manager" where
  "store_step m (MarkInvalid em reason) = mark_invalid m em reason"
| "store_step m (AddAccountInteractive now flow) =
     m\<lparr>authenticator_of := snd (add_account_interactive (authenticator_of m) now flow)\<rparr>"
| "store_step m (AuthCallback now g) =
     m\<lparr>authenticator_of := auth_callback_store (authenticator_of m) now g\<rparr>"
| "store_step m (RemoveAccount em) =
     m\<lparr>authenticator_of := snd (remove_account (authenticator_of m) em)\<rparr>"
| "store_step m (GetProject acct discovered) =
     m\<lparr>authenticator_of := snd (get_project_for_account (authenticator_of m) acct discovered)\<rparr>"
| "store_step m SaveAccounts = m\<lparr>authenticator_of := save_accounts (authenticator_of m)\<rparr>"

fun store_run :: "account_manager \<Rightarrow> store_op list \<Rightarrow> account_manager" where
  "store_run m [] = m"
| "store_run m (x # xs) = store_run (store_step m x) xs"

text \<open>The accounts of the persisted document (none when there is no file).\<close>

definition persisted_accounts :: "account_manager \<Rightarrow> account list" where
  "persisted_accounts m =
     (case accounts_file (authenticator_of m) of None \<Rightarrow> [] | Some accts \<Rightarrow> accts)"

text \<open>An account dict that has the key \<open>is_invalid\<close> or the key \<open>invalid_reason\<close>.\<close>

definition has_invalid_fields :: "account \<Rightarrow> bool" where
  "has_invalid_fields acct = (is_invalid acct \<noteq> None \<or> invalid_reason acct \<noteq> None)"

text \<open>The emails that a sequence of operations calls \<open>mark_invalid\<close> for.\<close>

fun marked_emails :: "store_op list \<Rightarrow> string list" where
  "marked_emails [] = []"
| "marked_emails (MarkInvalid em reason # xs) = em # marked_emails xs"
| "marked_emails (x # xs) = marked_emails xs"

text \<open>An example document with two accounts.\<close>

definition ab_doc :: "account list" where
  "ab_doc =
     [\<lparr>email = ''a@x'', refresh_token = Some ''ra'', project_id = Some ''p1'',
       is_invalid = None, invalid_reason = None\<rparr>,
      \<lparr>email = ''b@x'', refresh_token = Some ''rb'', project_id = Some ''p2'',
       is_invalid = None, invalid_reason = None\<rparr>]"

section \<open>Request payload: generationConfig (chat/transformation.py, build_request_payload)\<close>

datatype stop_param = StopStr string | StopList "string list" | StopOther

text \<open>
  The entries of \<open>optional_params\<close> that the generation config reads; \<open>None\<close> is an
  absent key. \<open>thinking_budget_tokens\<close> is
  \<open>optional_params.get("thinking", {}).get("budget_tokens")\<close>.
\<close>

record optional_params =
  max_tokens :: "int option"
  temperature :: "real option"
  top_p :: "real option"
  stop :: "stop_param option"
  thinking_budget_tokens :: "int option"

datatype thinking_config =
  ClaudeThinking bool "int option"
| GeminiThinking bool int

record generation_config =
  maxOutputTokens :: "int option"
  gc_temperature :: "real option"
  topP :: "real option"
  stopSequences :: "string list option"
  thinkingConfig :: "thinking_config option"

text \<open>\<open>generation_config.get("maxOutputTokens", 0)\<close>.\<close>

definition get_maxOutputTokens :: "generation_config \<Rightarrow> int" where
  "get_maxOutputTokens g = (case maxOutputTokens g of None \<Rightarrow> 0 | Some v \<Rightarrow> v)"

text \<open>
  The generation config as \<open>_build_request_payload\<close> builds it, step by step: the plain
  parameters, the thinking config, the Gemini cap. Nothing after these steps writes to
  it.
\<close>

definition gc_plain :: "optional_params \<Rightarrow> generation_config" where
  "gc_plain ps =
     \<lparr>maxOutputTokens = max_tokens ps, gc_temperature = temperature ps, topP = top_p ps,
      stopSequences =
        (case stop ps of
           Some (StopStr s) \<Rightarrow> Some [s]
         | Some (StopList l) \<Rightarrow> Some l
         | _ \<Rightarrow> None),
      thinkingConfig = None\<rparr>"

definition gc_thinking :: "string \<Rightarrow> optional_params \<Rightarrow> generation_config \<Rightarrow> generation_config" where
  "gc_thinking model ps g =
     (if is_thinking_model model
      then (if get_model_family model = Claude
            then (case thinking_budget_tokens ps of
                    Some budget \<Rightarrow>
                      (if budget \<noteq> 0
                       then (if get_maxOutputTokens g \<noteq> 0 \<and> get_maxOutputTokens g \<le> budget
                             then g\<lparr>maxOutputTokens := Some (budget + 8192)\<rparr>
                             else g)
                            \<lparr>thinkingConfig := Some (ClaudeThinking True (Some budget))\<rparr>
                       else g\<lparr>thinkingConfig := Some (ClaudeThinking True None)\<rparr>)
                  | None \<Rightarrow> g\<lparr>thinkingConfig := Some (ClaudeThinking True None)\<rparr>)
            else g\<lparr>thinkingConfig :=
                      Some (GeminiThinking True
                              (case thinking_budget_tokens ps of None \<Rightarrow> 16000 | Some b \<Rightarrow> b))\<rparr>)
      else g)"

definition gc_gemini_cap :: "string \<Rightarrow> generation_config \<Rightarrow> generation_config" where
  "gc_gemini_cap model g =
     (if get_model_family model = Gemini
      then (if get_maxOutputTokens g > GEMINI_MAX_OUTPUT_TOKENS
            then g\<lparr>maxOutputTokens := Some GEMINI_MAX_OUTPUT_TOKENS\<rparr>
            else g)
      else g)"

definition build_generation_config :: "string \<Rightarrow> optional_params \<Rightarrow> generation_config" where
  "build_generation_config model ps = gc_gemini_cap model (gc_thinking model ps (gc_plain ps))"

section \<open>Response translation (chat/transformation.py, convert_google_response_to_openai)\<close>

text \<open>
  A \<open>functionCall\<close> object; its \<open>args\<close> are kept as they are (type \<open>'a\<close>) and turned into
  text by \<open>json.dumps\<close>, a parameter of the translation.
\<close>

record 'a function_call =
  fc_id :: "string option"
  fc_name :: "string option"
  fc_args :: "'a option"

text \<open>A part of the candidate's content; \<open>thought\<close> is the truth value of \<open>part.get("thought")\<close>.\<close>

record 'a part =
  part_text :: "string option"
  thought :: bool
  thoughtSignature :: "string option"
  functionCall :: "'a function_call option"

record 'a candidate =
  parts :: "'a part list"
  finishReason :: "string option"

record usage_metadata =
  promptTokenCount :: "int option"
  cachedContentTokenCount :: "int option"
  candidatesTokenCount :: "int option"

record 'a google_response =
  candidates :: "'a candidate list"
  usageMetadata :: "usage_metadata option"

datatype content_block = ThinkingBlock string string | TextBlock string

record tool_call =
  tc_id :: string
  tc_type :: string
  tc_name :: string
  tc_arguments :: string

text \<open>The assistant message; \<open>tool_calls = None\<close> is a message without that key.\<close>

record message =
  role :: string
  content :: "string option"
  tool_calls :: "tool_call list option"

record usage =
  prompt_tokens :: int
  completion_tokens :: int
  total_tokens :: int

record openai_response =
  resp_id :: string
  object :: string
  created :: int
  resp_model :: string
  choice_message :: message
  finish_reason :: string
  resp_usage :: usage

text \<open>
  The loop over the parts, with its three variables. \<open>dumps\<close> is \<open>json.dumps\<close> on the
  arguments (\<open>None\<close> for the default \<open>{}\<close>); \<open>hex i\<close> is the random token drawn for part
  \<open>i\<close>.
\<close>

fun parts_loop ::
  "('a option \<Rightarrow> string) \<Rightarrow> (nat \<Rightarrow> string) \<Rightarrow> nat \<Rightarrow> 'a part list
   \<Rightarrow> content_block list \<times> tool_call list \<times> bool \<Rightarrow> content_block list \<times> tool_call list \<times> bool" where
  "parts_loop dumps hex i [] acc = acc"
| "parts_loop dumps hex i (p # ps) (content_blocks, tcs, has_tool_calls) =
     parts_loop dumps hex (Suc i) ps
       (case part_text p of
          Some t \<Rightarrow>
            (if thought p
             then (content_blocks
                     @ [ThinkingBlock t (case thoughtSignature p of None \<Rightarrow> [] | Some sg \<Rightarrow> sg)],
                   tcs, has_tool_calls)
             else (content_blocks @ [TextBlock t], tcs, has_tool_calls))
        | None \<Rightarrow>
            (case functionCall p of
               Some fc \<Rightarrow>
                 (content_blocks,
                  tcs @ [\<lparr>tc_id = (case fc_id fc of None \<Rightarrow> ''call_'' @ hex i | Some x \<Rightarrow> x),
                          tc_type = ''function'',
                          tc_name = (case fc_name fc of None \<Rightarrow> [] | Some n \<Rightarrow> n),
                          tc_arguments = dumps (fc_args fc)\<rparr>],
                  True)
             | None \<Rightarrow> (content_blocks, tcs, has_tool_calls)))"

text \<open>The loop that joins the texts of the text blocks.\<close>

fun text_of_blocks :: "content_block list \<Rightarrow> string \<Rightarrow> string" where
  "text_of_blocks [] text_content = text_content"
| "text_of_blocks (TextBlock t # bs) text_content = text_of_blocks bs (text_content @ t)"
| "text_of_blocks (ThinkingBlock t sg # bs) text_content = text_of_blocks bs text_content"

definition stop_reason_of :: "string \<Rightarrow> bool \<Rightarrow> string" where
  "stop_reason_of fr has_tool_calls =
     (if fr = ''STOP'' then ''stop''
      else if fr = ''MAX_TOKENS'' then ''length''
      else if fr = ''TOOL_USE'' \<or> has_tool_calls then ''tool_calls''
      else ''stop'')"

text \<open>\<open>candidates[0].content.parts\<close>, empty without a candidate.\<close>

definition first_candidate_parts :: "'a google_response \<Rightarrow> 'a part list" where
  "first_candidate_parts response = (case candidates response of [] \<Rightarrow> [] | c # cs \<Rightarrow> parts c)"

text \<open>
  \<open>response\<close> is \<open>google_response.get("response", google_response)\<close>, the response after
  an outer \<open>response\<close> has been removed. \<open>hex16\<close> is the token of the id and \<open>now\<close> the
  clock reading.
\<close>

definition convert_google_response_to_openai ::
  "('a option \<Rightarrow> string) \<Rightarrow> (nat \<Rightarrow> string) \<Rightarrow> string \<Rightarrow> real \<Rightarrow> 'a google_response \<Rightarrow> string
   \<Rightarrow> openai_response" where
  "convert_google_response_to_openai dumps hex hex16 now response model =
     (let first_parts = first_candidate_parts response;
          fr = (case candidates response of
                  [] \<Rightarrow> ''STOP''
                | c # cs \<Rightarrow> (case finishReason c of None \<Rightarrow> ''STOP'' | Some x \<Rightarrow> x));
          (content_blocks, tcs, has_tool_calls) = parts_loop dumps hex 0 first_parts ([], [], False);
          um = (case usageMetadata response of
                  None \<Rightarrow> \<lparr>promptTokenCount = None, cachedContentTokenCount = None,
                            candidatesTokenCount = None\<rparr>
                | Some u \<Rightarrow> u);
          prompt = (case promptTokenCount um of None \<Rightarrow> 0 | Some n \<Rightarrow> n);
          cached = (case cachedContentTokenCount um of None \<Rightarrow> 0 | Some n \<Rightarrow> n);
          completion = (case candidatesTokenCount um of None \<Rightarrow> 0 | Some n \<Rightarrow> n);
          text_content = text_of_blocks content_blocks []
      in \<lparr>resp_id = ''chatcmpl-'' @ hex16,
          object = ''chat.completion'',
          created = py_int now,
          resp_model = model,
          choice_message =
            \<lparr>role = ''assistant'',
             content = (if text_content = [] then None else Some text_content),
             tool_calls = (if tcs = [] then None else Some tcs)\<rparr>,
          finish_reason = stop_reason_of fr has_tool_calls,
          resp_usage =
            \<lparr>prompt_tokens = prompt - cached, completion_tokens = completion,
             total_tokens = prompt - cached + completion\<rparr>\<rparr>)"

section \<open>Schema sanitizer (chat/transformation.py, sanitize_schema)\<close>

datatype json =
  JNull
| JBool bool
| JNum real
| JStr string
| JArr "json list"
| JObj "(string \<times> json) list"

definition dropped_keys :: "string list" where
  "dropped_keys =
     [''$schema'', ''$id'', ''$ref'', ''definitions'', ''$defs'', ''examples'', ''default'']"

text \<open>
  \<open>sanitize_loop\<close> is the loop over \<open>schema.items()\<close>; it yields the entries of \<open>result\<close>
  in order (the keys of a dict are distinct, so each \<open>result[key] = _\<close> adds an entry).
  \<open>sanitize_entry\<close> is the body of the loop, what one iteration adds: nothing for a
  dropped key. A dict value under \<open>properties\<close> has each of its values sanitized
  (\<open>sanitize_values\<close>); a dict value under \<open>items\<close>, \<open>additionalProperties\<close> or any other
  key is sanitized itself. A value that is no dict is kept, except under
  \<open>additionalProperties\<close>, where only \<open>False\<close> is kept.
\<close>

fun sanitize_schema :: "json \<Rightarrow> json"
  and sanitize_loop :: "(string \<times> json) list \<Rightarrow> (string \<times> json) list"
  and sanitize_entry :: "string \<Rightarrow> json \<Rightarrow> (string \<times> json) list"
  and sanitize_values :: "(string \<times> json) list \<Rightarrow> (string \<times> json) list" where
  "sanitize_schema (JObj kvs) =
     (let result = sanitize_loop kvs
      in if ''type'' \<notin> set (map fst result)
         then JObj (result @ [(''type'', JStr ''object'')])
         else JObj result)"
| "sanitize_schema v = JObj [(''type'', JStr ''object'')]"
| "sanitize_loop [] = []"
| "sanitize_loop ((key, value) # rest) = sanitize_entry key value @ sanitize_loop rest"
| "sanitize_entry key (JObj vs) =
     (if key \<in> set dropped_keys then []
      else if key = ''properties'' then [(key, JObj (sanitize_values vs))]
      else [(key, sanitize_schema (JObj vs))])"
| "sanitize_entry key value =
     (if key \<in> set dropped_keys then []
      else if key = ''additionalProperties''
      then (if value = JBool False then [(key, JBool False)] else [])
      else [(key, value)])"
| "sanitize_values [] = []"
| "sanitize_values ((k, v) # rest) = (k, sanitize_schema v) # sanitize_values rest"

section \<open>Notions of the specification\<close>

text \<open>
  The entries that the specification says \<open>get_min_wait_time_ms\<close> scans under a model
  filter: those whose key ends in \<open>":" + model_id\<close> and those whose key has no \<open>":"\<close>;
  and the smallest positive remaining wait over them (\<open>None\<close> when there is none).
\<close>

definition claimed_scanned :: "string option \<Rightarrow> string \<Rightarrow> bool" where
  "claimed_scanned mid key =
     (case mid of None \<Rightarrow> True | Some m \<Rightarrow> endswith key ('':'' @ m) \<or> \<not> str_in '':'' key)"

definition claimed_min_wait :: "ledger \<Rightarrow> real \<Rightarrow> string option \<Rightarrow> real option" where
  "claimed_min_wait rl now mid =
     (let waits = map (\<lambda>(k, l). reset_time l - now)
                    (filter (\<lambda>(k, l). claimed_scanned mid k \<and> reset_time l > now) rl)
      in if waits = [] then None else Some (Min (set waits)))"

text \<open>The concatenation of the texts of all text parts that are not thoughts.\<close>

definition joined_text :: "'a part list \<Rightarrow> string" where
  "joined_text ps = concat (List.map_filter (\<lambda>p. if thought p then None else part_text p) ps)"

text \<open>
  No account of the manager is invalid, and none is rate-limited at any clock reading
  of the calls considered.
\<close>

definition all_available :: "account_manager \<Rightarrow> string option \<Rightarrow> (nat \<Rightarrow> real \<times> real) list \<Rightarrow> bool" where
  "all_available m mid clks =
     (\<forall>r \<in> set (get_accounts (authenticator_of m)).
        \<not> is_account_invalid (heap (authenticator_of m) r)
        \<and> (\<forall>clk \<in> set clks. \<forall>j.
              \<not> is_account_rate_limited (rate_limits m) (heap (authenticator_of m) r) mid
                  (fst (clk j)) (snd (clk j))))"

text \<open>
  An example state: two accounts loaded from the accounts file, and a ledger entry for
  the first, made at clock reading 1000 ms with a reset after 2000 ms.
\<close>

definition two_accounts :: account_manager where
  "two_accounts =
     (AccountManager_init
        (Some [\<lparr>email = ''a@x'', refresh_token = Some ''ra'', project_id = None,
                 is_invalid = None, invalid_reason = None\<rparr>,
               \<lparr>email = ''b@x'', refresh_token = Some ''rb'', project_id = None,
                 is_invalid = None, invalid_reason = None\<rparr>]))
     \<lparr>rate_limits := mark_rate_limited [] 1000 ''a@x'' (Some 2000) None\<rparr>"

text \<open>
  \<open>begins_within l pre rest\<close>: in the text \<open>pre @ rest\<close> an occurrence of \<open>l\<close>, compared
  without regard to case, begins inside \<open>pre\<close>. With \<open>rest = []\<close>: \<open>l\<close> occurs in \<open>pre\<close>.
\<close>

fun begins_within :: "string \<Rightarrow> string \<Rightarrow> string \<Rightarrow> bool" where
  "begins_within l [] rest = False"
| "begins_within l (c # cs) rest = (startswith_ic (c # cs @ rest) l \<or> begins_within l cs rest)"

text \<open>A pattern without optional classes.\<close>

definition plain_pattern :: "re_item list \<Rightarrow> bool" where
  "plain_pattern p = (\<forall>x \<in> set p. \<forall>cs. x \<noteq> OptCls cs)"

text \<open>Every flagged account that the store refers to or has persisted has an email in M.\<close>

definition flags_within :: "string set \<Rightarrow> authenticator \<Rightarrow> bool" where
  "flags_within M a =
     ((\<forall>r \<in> set (accounts a). has_invalid_fields (heap a r) \<longrightarrow> email (heap a r) \<in> M)
      \<and> (\<forall>acct \<in> set (case accounts_file a of None \<Rightarrow> [] | Some accts \<Rightarrow> accts).
            has_invalid_fields acct \<longrightarrow> email acct \<in> M))"

section \<open>Double arithmetic: properties\<close>

text \<open>The exponent brackets its argument between two powers of two.\<close>

lemma expo_bounds:
  "0 < x \<Longrightarrow> 2 powi expo x \<le> x \<and> x < 2 powi (expo x + 1)"
proof (induction x rule: expo.induct)
  case (1 x)
  show ?case
  proof (cases "2 \<le> x")
    case True
    have e: "expo x = expo (x / 2) + 1"
      using True by (subst expo.simps) simp
    have ih: "2 powi expo (x / 2) \<le> x / 2 \<and> x / 2 < 2 powi (expo (x / 2) + 1)"
      using "1.IH"(1) [OF True] "1.prems" by simp
    have "(2::real) powi (expo (x / 2) + 1) = 2 powi expo (x / 2) * 2"
      by (rule power_int_add_1) simp
    moreover have "(2::real) powi (expo (x / 2) + 1 + 1) = 2 powi (expo (x / 2) + 1) * 2"
      by (rule power_int_add_1) simp
    ultimately show ?thesis
      using ih unfolding e by linarith
  next
    case nt: False
    show ?thesis
    proof (cases "x < 1")
      case True
      have e: "expo x = expo (2 * x) - 1"
        using True nt "1.prems" by (subst expo.simps) simp
      have ih: "2 powi expo (2 * x) \<le> 2 * x \<and> 2 * x < 2 powi (expo (2 * x) + 1)"
        using "1.IH"(2) [OF nt] True "1.prems" by simp
      have "(2::real) powi (expo (2 * x) - 1 + 1) = 2 powi (expo (2 * x) - 1) * 2"
        by (rule power_int_add_1) simp
      moreover have "(2::real) powi (expo (2 * x) + 1) = 2 powi expo (2 * x) * 2"
        by (rule power_int_add_1) simp
      ultimately show ?thesis
        using ih unfolding e by simp
    next
      case False
      have e: "expo x = 0"
        using False nt by (subst expo.simps) simp
      show ?thesis using False nt unfolding e by simp
    qed
  qed
qed

lemma rne_error: "\<bar>of_int (rne y) - y\<bar> \<le> 1 / 2"
proof -
  have "of_int \<lfloor>y\<rfloor> \<le> y" "y < of_int \<lfloor>y\<rfloor> + 1"
    by linarith+
  then show ?thesis
    unfolding rne_def by (auto simp: abs_le_iff)
qed

lemma fl_error: "\<bar>fl x - x\<bar> \<le> \<bar>x\<bar> / 2 ^ 53"
proof (cases "x = 0")
  case True
  then show ?thesis by (simp add: fl_def)
next
  case False
  define u :: real where "u = 2 powi (expo \<bar>x\<bar> - 52)"
  define k where "k = rne (\<bar>x\<bar> / u)"
  have pos: "0 < \<bar>x\<bar>" using False by simp
  have u_pos: "0 < u" by (simp add: u_def)
  have "(2::real) powi (expo \<bar>x\<bar> - 52) = 2 powi expo \<bar>x\<bar> / 2 powi 52"
    by (rule power_int_diff) simp
  then have u_eq: "u = 2 powi expo \<bar>x\<bar> / 2 ^ 52"
    by (simp add: u_def)
  have "2 powi expo \<bar>x\<bar> \<le> \<bar>x\<bar>"
    using expo_bounds [OF pos] by simp
  then have u_le: "u \<le> \<bar>x\<bar> / 2 ^ 52"
    unfolding u_eq by (simp add: divide_right_mono)
  have "\<bar>of_int k - \<bar>x\<bar> / u\<bar> \<le> 1 / 2"
    unfolding k_def by (rule rne_error)
  then have "\<bar>of_int k - \<bar>x\<bar> / u\<bar> * u \<le> 1 / 2 * u"
    using u_pos by (simp add: mult_right_mono)
  moreover have "\<bar>of_int k - \<bar>x\<bar> / u\<bar> * u = \<bar>of_int k * u - \<bar>x\<bar>\<bar>"
  proof -
    have "\<bar>of_int k - \<bar>x\<bar> / u\<bar> * u = \<bar>of_int k - \<bar>x\<bar> / u\<bar> * \<bar>u\<bar>"
      using u_pos by simp
    also have "\<dots> = \<bar>(of_int k - \<bar>x\<bar> / u) * u\<bar>"
      by (rule abs_mult [symmetric])
    also have "(of_int k - \<bar>x\<bar> / u) * u = of_int k * u - \<bar>x\<bar>"
      using u_pos by (simp add: left_diff_distrib)
    finally show ?thesis .
  qed
  ultimately have near: "\<bar>of_int k * u - \<bar>x\<bar>\<bar> \<le> u / 2"
    by simp
  have flx: "fl x = sgn x * (of_int k * u)"
    using False by (simp add: fl_def u_def k_def)
  have "\<bar>fl x - x\<bar> = \<bar>sgn x * (of_int k * u - \<bar>x\<bar>)\<bar>"
    unfolding flx by (simp add: right_diff_distrib sgn_mult_abs)
  also have "\<dots> = \<bar>of_int k * u - \<bar>x\<bar>\<bar>"
    using False by (simp add: abs_mult abs_sgn_eq)
  also have "\<dots> \<le> u / 2" by (rule near)
  also have "\<dots> \<le> \<bar>x\<bar> / 2 ^ 53"
    using u_le by simp
  finally show ?thesis .
qed

lemma rne_of_int: "rne (of_int n) = n"
  by (simp add: rne_def)

lemma fl_exact:
  assumes m: "\<bar>m\<bar> < 2 ^ 53"
  shows "fl (of_int m * 2 powi k) = of_int m * 2 powi k"
proof (cases "m = 0")
  case True
  then show ?thesis by (simp add: fl_def)
next
  case False
  define x :: real where "x = of_int m * 2 powi k"
  define e where "e = expo \<bar>x\<bar>"
  have p2: "(0::real) < 2 powi i" for i by simp
  have absx: "\<bar>x\<bar> = of_int \<bar>m\<bar> * 2 powi k"
    by (simp add: x_def abs_mult)
  have xpos: "0 < \<bar>x\<bar>"
    using False by (simp add: x_def)
  have lo: "2 powi e \<le> \<bar>x\<bar>"
    unfolding e_def using expo_bounds [OF xpos] by simp
  have ek: "e - k \<le> 52"
  proof (rule ccontr)
    assume "\<not> e - k \<le> 52"
    then have ge: "53 \<le> e - k" by simp
    then have "nat (e - k) \<ge> 53" by simp
    then have "(2::real) ^ 53 \<le> 2 ^ nat (e - k)"
      by (intro power_increasing) simp_all
    also have "\<dots> = 2 powi (e - k)"
      using ge by (simp add: power_int_def)
    finally have "(2::real) ^ 53 \<le> 2 powi (e - k)" .
    moreover have "real_of_int \<bar>m\<bar> < 2 ^ 53"
      using m by (metis of_int_less_numeral_power_cancel_iff)
    ultimately have "real_of_int \<bar>m\<bar> < 2 powi (e - k)" by linarith
    then have "real_of_int \<bar>m\<bar> * 2 powi k < 2 powi (e - k) * 2 powi k"
      using p2 [of k] by (simp add: mult_strict_right_mono)
    also have "2 powi (e - k) * 2 powi k = (2::real) powi (e - k + k)"
      by (rule power_int_add [symmetric]) simp
    finally have "\<bar>x\<bar> < 2 powi e" by (simp add: absx)
    then show False using lo by simp
  qed
  define j where "j = nat (k - e + 52)"
  have jk: "int j = k - (e - 52)" using ek by (simp add: j_def)
  have "(2::real) powi (k - (e - 52)) = 2 powi k / 2 powi (e - 52)"
    by (rule power_int_diff) simp
  then have quot: "2 powi k / 2 powi (e - 52) = (2::real) ^ j"
    using jk by (metis power_int_of_nat)
  have "\<bar>x\<bar> / 2 powi (e - 52) = of_int \<bar>m\<bar> * (2 powi k / 2 powi (e - 52))"
    by (simp add: absx)
  also have "\<dots> = of_int (\<bar>m\<bar> * 2 ^ j)"
    by (simp add: quot)
  finally have y: "\<bar>x\<bar> / 2 powi (e - 52) = of_int (\<bar>m\<bar> * 2 ^ j)" .
  have "fl x = sgn x * of_int (rne (\<bar>x\<bar> / 2 powi (e - 52))) * 2 powi (e - 52)"
    using xpos by (simp add: fl_def e_def)
  also have "\<dots> = sgn x * (\<bar>x\<bar> / 2 powi (e - 52)) * 2 powi (e - 52)"
    unfolding y rne_of_int by simp
  also have "\<dots> = sgn x * \<bar>x\<bar>"
    using p2 [of "e - 52"] by simp
  also have "\<dots> = x" by (simp add: sgn_mult_abs)
  finally show ?thesis by (simp add: x_def)
qed

lemma fl_of_int: "\<bar>n\<bar> < 2 ^ 53 \<Longrightarrow> fl (of_int n) = of_int n"
  using fl_exact [of n 0] by simp

lemma fl_grid:
  assumes "\<bar>real_of_int n / 2 ^ 22\<bar> < 2 ^ 31"
  shows "fl (of_int n / 2 ^ 22) = of_int n / 2 ^ 22"
proof -
  have "\<bar>real_of_int n\<bar> < 2 ^ 31 * 2 ^ 22"
    using assms by (simp add: field_simps)
  then have "real_of_int \<bar>n\<bar> < 2 ^ 53" by simp
  then have "\<bar>n\<bar> < 2 ^ 53"
    by (metis of_int_less_numeral_power_cancel_iff)
  then have "fl (of_int n * 2 powi (- 22)) = of_int n * 2 powi (- 22)"
    by (rule fl_exact)
  moreover have "(2::real) powi (- 22) = 1 / 2 ^ 22"
    by (simp add: power_int_minus_divide)
  ultimately show ?thesis by simp
qed

lemma fl_abs_le: "\<bar>fl x\<bar> \<le> 9 / 8 * \<bar>x\<bar>"
proof -
  have "\<bar>fl x - x\<bar> \<le> \<bar>x\<bar> / 2 ^ 53" by (rule fl_error)
  moreover have "\<bar>x\<bar> / 2 ^ 53 \<le> \<bar>x\<bar> / 8" by simp
  ultimately have "\<bar>fl x - x\<bar> \<le> \<bar>x\<bar> / 8" by (rule order_trans)
  then show ?thesis by linarith
qed

text \<open>
  The expiry that \<open>TokenCache.set\<close> stores is within \<open>(|set_time| + |ttl| + 60) / 2 ^ 51\<close>
  of \<open>set_time + ttl - 60\<close>.
\<close>

lemma stored_expiry_error:
  "\<bar>fsub (fadd s (float_of_int ttl)) 60 - (s + real_of_int ttl - 60)\<bar>
     \<le> (\<bar>s\<bar> + \<bar>real_of_int ttl\<bar> + 60) / 2 ^ 51"
proof -
  define T where "T = fl (real_of_int ttl)"
  define A where "A = fl (s + T)"
  define E where "E = fl (A - 60)"
  have e1: "\<bar>T - real_of_int ttl\<bar> \<le> \<bar>real_of_int ttl\<bar> / 2 ^ 53"
    unfolding T_def by (rule fl_error)
  have e2: "\<bar>A - (s + T)\<bar> \<le> \<bar>s + T\<bar> / 2 ^ 53"
    unfolding A_def by (rule fl_error)
  have e3: "\<bar>E - (A - 60)\<bar> \<le> \<bar>A - 60\<bar> / 2 ^ 53"
    unfolding E_def by (rule fl_error)
  have b1: "\<bar>T\<bar> \<le> 9 / 8 * \<bar>real_of_int ttl\<bar>"
    unfolding T_def by (rule fl_abs_le)
  have b2: "\<bar>A\<bar> \<le> 9 / 8 * \<bar>s + T\<bar>"
    unfolding A_def by (rule fl_abs_le)
  define a where "a = \<bar>s\<bar>"
  define l where "l = \<bar>real_of_int ttl\<bar>"
  have sT: "\<bar>s + T\<bar> \<le> a + 9 / 8 * l"
    using b1 unfolding a_def l_def by linarith
  have "9 / 8 * \<bar>s + T\<bar> \<le> 9 / 8 * (a + 9 / 8 * l)"
    using sT by (intro mult_left_mono) simp_all
  also have "\<dots> = 9 / 8 * a + 81 / 64 * l"
    by (simp add: algebra_simps)
  finally have absA: "\<bar>A\<bar> \<le> 9 / 8 * a + 81 / 64 * l"
    using b2 by (rule order_trans [rotated])
  have A60: "\<bar>A - 60\<bar> \<le> 9 / 8 * a + 81 / 64 * l + 60"
    using absA by linarith
  have d1: "\<bar>T - real_of_int ttl\<bar> \<le> l / 2 ^ 53"
    using e1 unfolding l_def .
  have "\<bar>s + T\<bar> / 2 ^ 53 \<le> (a + 9 / 8 * l) / 2 ^ 53"
    using sT by (intro divide_right_mono) simp_all
  with e2 have d2: "\<bar>A - (s + T)\<bar> \<le> (a + 9 / 8 * l) / 2 ^ 53"
    by (rule order_trans)
  have "\<bar>A - 60\<bar> / 2 ^ 53 \<le> (9 / 8 * a + 81 / 64 * l + 60) / 2 ^ 53"
    using A60 by (intro divide_right_mono) simp_all
  with e3 have d3: "\<bar>E - (A - 60)\<bar> \<le> (9 / 8 * a + 81 / 64 * l + 60) / 2 ^ 53"
    by (rule order_trans)
  have "E - (s + real_of_int ttl - 60) = (E - (A - 60)) + (A - (s + T)) + (T - real_of_int ttl)"
    by simp
  then have "\<bar>E - (s + real_of_int ttl - 60)\<bar>
               \<le> \<bar>E - (A - 60)\<bar> + \<bar>A - (s + T)\<bar> + \<bar>T - real_of_int ttl\<bar>"
    by linarith
  also have "\<dots> \<le> (9 / 8 * a + 81 / 64 * l + 60) / 2 ^ 53 + (a + 9 / 8 * l) / 2 ^ 53 + l / 2 ^ 53"
    using d1 d2 d3 by linarith
  also have "\<dots> \<le> (a + l + 60) / 2 ^ 51"
  proof -
    have "0 \<le> a" "0 \<le> l" by (simp_all add: a_def l_def)
    then show ?thesis by (simp add: field_simps)
  qed
  finally have "\<bar>E - (s + real_of_int ttl - 60)\<bar> \<le> (\<bar>s\<bar> + \<bar>real_of_int ttl\<bar> + 60) / 2 ^ 51"
    unfolding a_def l_def .
  then show ?thesis
    by (simp add: E_def A_def T_def fsub_def fadd_def float_of_int_def)
qed

text \<open>
  The doubles of one binade lie on a grid: a double from \<open>2 ^ 30\<close> up to \<open>2 ^ 31\<close>, as
  \<open>time.time()\<close> returns from 2004 to 2038, is a multiple of \<open>1 / 2 ^ 22\<close>, and a double
  from \<open>2 ^ 40\<close> up to \<open>2 ^ 41\<close>, as \<open>time.time() * 1000\<close> is from 2004 to 2039, is a
  multiple of \<open>1 / 2 ^ 12\<close>.
\<close>

lemma powi_less_cancel: "(2::real) powi a < 2 powi b \<Longrightarrow> a < b"
proof (rule ccontr)
  assume lt: "(2::real) powi a < 2 powi b" and "\<not> a < b"
  then have "b \<le> a" by simp
  then have "(2::real) powi b \<le> 2 powi a" by (rule power_int_increasing) simp
  with lt show False by simp
qed

lemma expo_unique:
  assumes lo: "2 powi e \<le> x" and hi: "x < 2 powi (e + 1)"
  shows "expo x = e"
proof -
  have "(0::real) < 2 powi e" by simp
  with lo have pos: "0 < x" by linarith
  from expo_bounds [OF pos] have b: "2 powi expo x \<le> x" "x < 2 powi (expo x + 1)"
    by simp_all
  from b(1) hi have "(2::real) powi expo x < 2 powi (e + 1)" by linarith
  then have "expo x < e + 1" by (rule powi_less_cancel)
  moreover
  from lo b(2) have "(2::real) powi e < 2 powi (expo x + 1)" by linarith
  then have "e < expo x + 1" by (rule powi_less_cancel)
  ultimately show ?thesis by simp
qed

lemma fl_binade:
  assumes lo: "2 powi e \<le> x" and hi: "x < 2 powi (e + 1)"
  shows "\<exists>m. fl x = real_of_int m * 2 powi (e - 52)"
proof -
  have "(0::real) < 2 powi e" by simp
  with lo have pos: "0 < x" by linarith
  have "expo \<bar>x\<bar> = e"
    using pos lo hi by (intro expo_unique) simp_all
  then have "fl x = real_of_int (rne (\<bar>x\<bar> / 2 powi (e - 52))) * 2 powi (e - 52)"
    using pos by (simp add: fl_def)
  then show ?thesis ..
qed

lemma seconds_grid:
  assumes "2 ^ 30 \<le> x" and "x < 2 ^ 31"
  shows "\<exists>m. fl x = real_of_int m / 2 ^ 22"
proof -
  have "\<exists>m. fl x = real_of_int m * 2 powi (30 - 52)"
    using assms by (intro fl_binade) simp_all
  then show ?thesis by (simp add: power_int_minus_divide)
qed

lemma millis_grid:
  assumes "2 ^ 40 \<le> x" and "x < 2 ^ 41"
  shows "\<exists>m. fl x = real_of_int m / 2 ^ 12"
proof -
  have "\<exists>m. fl x = real_of_int m * 2 powi (40 - 52)"
    using assms by (intro fl_binade) simp_all
  then show ?thesis by (simp add: power_int_minus_divide)
qed

text \<open>
  For a reading on the grid of seconds the stored expiry is exact, as long as it stays
  below \<open>2 ^ 31\<close>.
\<close>

lemma stored_expiry_exact:
  assumes s: "s = real_of_int m / 2 ^ 22"
    and ttl: "\<bar>ttl\<bar> < 2 ^ 53"
    and a: "\<bar>s + real_of_int ttl\<bar> < 2 ^ 31"
    and e: "\<bar>s + real_of_int ttl - 60\<bar> < 2 ^ 31"
  shows "fsub (fadd s (float_of_int ttl)) 60 = s + real_of_int ttl - 60"
proof -
  have T: "float_of_int ttl = real_of_int ttl"
    unfolding float_of_int_def using ttl by (rule fl_of_int)
  have sa: "s + real_of_int ttl = real_of_int (m + ttl * 2 ^ 22) / 2 ^ 22"
    by (simp add: s field_simps)
  have A: "fadd s (real_of_int ttl) = s + real_of_int ttl"
    unfolding fadd_def sa by (rule fl_grid) (use a sa in simp)
  have se: "s + real_of_int ttl - 60 = real_of_int (m + (ttl - 60) * 2 ^ 22) / 2 ^ 22"
    by (simp add: s field_simps)
  have "fsub (s + real_of_int ttl) 60 = s + real_of_int ttl - 60"
    unfolding fsub_def se by (rule fl_grid) (use e se in simp)
  then show ?thesis by (simp add: T A)
qed

text \<open>
  The ledger adds a number of milliseconds to a reading and subtracts one reading from
  another. For readings on the grid of milliseconds and results below \<open>2 ^ 41\<close> the
  double operations are exact, which is why the ledger is modelled with exact sums.
\<close>

lemma fl_grid_millis:
  assumes "\<bar>real_of_int n / 2 ^ 12\<bar> < 2 ^ 41"
  shows "fl (of_int n / 2 ^ 12) = of_int n / 2 ^ 12"
proof -
  have "\<bar>real_of_int n\<bar> < 2 ^ 41 * 2 ^ 12"
    using assms by (simp add: field_simps)
  then have "real_of_int \<bar>n\<bar> < 2 ^ 53" by simp
  then have "\<bar>n\<bar> < 2 ^ 53"
    by (metis of_int_less_numeral_power_cancel_iff)
  then have "fl (of_int n * 2 powi (- 12)) = of_int n * 2 powi (- 12)"
    by (rule fl_exact)
  moreover have "(2::real) powi (- 12) = 1 / 2 ^ 12"
    by (simp add: power_int_minus_divide)
  ultimately show ?thesis by simp
qed

lemma ledger_sum_exact:
  assumes now: "now = real_of_int m / 2 ^ 12"
    and r: "\<bar>r\<bar> < 2 ^ 53"
    and s: "\<bar>now + real_of_int r\<bar> < 2 ^ 41"
  shows "fadd now (float_of_int r) = now + real_of_int r"
proof -
  have R: "float_of_int r = real_of_int r"
    unfolding float_of_int_def using r by (rule fl_of_int)
  have sa: "now + real_of_int r = real_of_int (m + r * 2 ^ 12) / 2 ^ 12"
    by (simp add: now field_simps)
  have "fadd now (real_of_int r) = now + real_of_int r"
    unfolding fadd_def sa by (rule fl_grid_millis) (use s sa in simp)
  then show ?thesis by (simp add: R)
qed

lemma ledger_diff_exact:
  assumes a: "a = real_of_int m / 2 ^ 12"
    and b: "b = real_of_int n / 2 ^ 12"
    and d: "\<bar>a - b\<bar> < 2 ^ 41"
  shows "fsub a b = a - b"
proof -
  have sa: "a - b = real_of_int (m - n) / 2 ^ 12"
    by (simp add: a b field_simps)
  show ?thesis
    unfolding fsub_def sa by (rule fl_grid_millis) (use d sa in simp)
qed

section \<open>Token cache: properties\<close>

text \<open>
  Claim C3 as stated (\<open>get\<close> returns nothing exactly when
  \<open>set_time + ttl - now \<le> 60\<close>) fails. With the clock at the double nearest to 0.1 both
  at \<open>set\<close> and at \<open>get\<close>, and a lifetime of 60 seconds, no time remains beyond the 60
  seconds of margin, yet \<open>get\<close> returns the token: \<open>0.1 + 60 - 60\<close> in doubles is larger
  than 0.1.
\<close>

theorem token_cache_boundary_counterexample:
  "TokenCache_get (TokenCache_set Map.empty (fl (1 / 10)) ''a@x'' ''tok'' 60) (fl (1 / 10)) ''a@x''
     = Some ''tok''
   \<and> fl (1 / 10) + real_of_int 60 - fl (1 / 10) \<le> 60"
  by code_simp

text \<open>
  Claim C3, amended. After \<open>set(email, t, ttl)\<close> at time \<open>set_time\<close>, \<open>get(email)\<close> at time
  \<open>now\<close> returns \<open>t\<close> when \<open>now\<close> is below the stored expiry, the double
  \<open>set_time + ttl - 60\<close>, and nothing otherwise. The stored expiry is within
  \<open>(|set_time| + |ttl| + 60) / 2 ^ 51\<close> of the exact \<open>set_time + ttl - 60\<close>, so \<open>get\<close>
  returns \<open>t\<close> when \<open>now\<close> is below the exact value by more than that, and nothing when
  \<open>now\<close> reaches the exact value plus that. When \<open>set_time\<close> is a multiple of
  \<open>1 / 2 ^ 22\<close> and the expiry stays below \<open>2 ^ 31\<close> (every clock reading from 2004 until
  the lifetime crosses 2038), the stored expiry is exact, and \<open>get\<close> returns nothing
  exactly when \<open>set_time + ttl - now \<le> 60\<close>.
\<close>

theorem token_cache_set_get_double:
  "TokenCache_get (TokenCache_set cache set_time em t ttl) now em =
     (if now < fsub (fadd set_time (float_of_int ttl)) 60 then Some t else None)
   \<and> \<bar>fsub (fadd set_time (float_of_int ttl)) 60 - (set_time + real_of_int ttl - 60)\<bar>
        \<le> (\<bar>set_time\<bar> + \<bar>real_of_int ttl\<bar> + 60) / 2 ^ 51
   \<and> (now + (\<bar>set_time\<bar> + \<bar>real_of_int ttl\<bar> + 60) / 2 ^ 51 < set_time + real_of_int ttl - 60
        \<longrightarrow> TokenCache_get (TokenCache_set cache set_time em t ttl) now em = Some t)
   \<and> (set_time + real_of_int ttl - 60 + (\<bar>set_time\<bar> + \<bar>real_of_int ttl\<bar> + 60) / 2 ^ 51 \<le> now
        \<longrightarrow> TokenCache_get (TokenCache_set cache set_time em t ttl) now em = None)
   \<and> (set_time = real_of_int m / 2 ^ 22 \<and> \<bar>ttl\<bar> < 2 ^ 53
        \<and> \<bar>set_time + real_of_int ttl\<bar> < 2 ^ 31 \<and> \<bar>set_time + real_of_int ttl - 60\<bar> < 2 ^ 31
        \<longrightarrow> TokenCache_get (TokenCache_set cache set_time em t ttl) now em =
              (if now < set_time + real_of_int ttl - 60 then Some t else None)
            \<and> ((TokenCache_get (TokenCache_set cache set_time em t ttl) now em = None)
                 = (set_time + real_of_int ttl - now \<le> 60)))"
proof -
  define E where "E = fsub (fadd set_time (float_of_int ttl)) 60"
  define x where "x = set_time + real_of_int ttl - 60"
  define eps where "eps = (\<bar>set_time\<bar> + \<bar>real_of_int ttl\<bar> + 60) / 2 ^ 51"
  have g: "TokenCache_get (TokenCache_set cache set_time em t ttl) now em =
             (if now < E then Some t else None)"
    by (simp add: TokenCache_get_def TokenCache_set_def E_def)
  have b: "\<bar>E - x\<bar> \<le> eps"
    unfolding E_def x_def eps_def by (rule stored_expiry_error)
  have c3: "now + eps < x \<longrightarrow>
              TokenCache_get (TokenCache_set cache set_time em t ttl) now em = Some t"
  proof
    assume "now + eps < x"
    then have "now < E" using b by linarith
    then show "TokenCache_get (TokenCache_set cache set_time em t ttl) now em = Some t"
      by (simp add: g)
  qed
  have c4: "x + eps \<le> now \<longrightarrow>
              TokenCache_get (TokenCache_set cache set_time em t ttl) now em = None"
  proof
    assume "x + eps \<le> now"
    then have "\<not> now < E" using b by linarith
    then show "TokenCache_get (TokenCache_set cache set_time em t ttl) now em = None"
      by (simp add: g)
  qed
  have c5: "set_time = real_of_int m / 2 ^ 22 \<and> \<bar>ttl\<bar> < 2 ^ 53
        \<and> \<bar>set_time + real_of_int ttl\<bar> < 2 ^ 31 \<and> \<bar>set_time + real_of_int ttl - 60\<bar> < 2 ^ 31
        \<longrightarrow> TokenCache_get (TokenCache_set cache set_time em t ttl) now em =
              (if now < x then Some t else None)
            \<and> ((TokenCache_get (TokenCache_set cache set_time em t ttl) now em = None)
                 = (set_time + real_of_int ttl - now \<le> 60))"
  proof
    assume "set_time = real_of_int m / 2 ^ 22 \<and> \<bar>ttl\<bar> < 2 ^ 53
        \<and> \<bar>set_time + real_of_int ttl\<bar> < 2 ^ 31 \<and> \<bar>set_time + real_of_int ttl - 60\<bar> < 2 ^ 31"
    then have "E = x"
      unfolding E_def x_def by (intro stored_expiry_exact) simp_all
    then have g': "TokenCache_get (TokenCache_set cache set_time em t ttl) now em =
                     (if now < x then Some t else None)"
      by (simp add: g)
    have "(now < x) = (\<not> set_time + real_of_int ttl - now \<le> 60)"
      unfolding x_def by linarith
    then have "((if now < x then Some t else None) = None)
                 = (set_time + real_of_int ttl - now \<le> 60)"
      by simp
    with g' show "TokenCache_get (TokenCache_set cache set_time em t ttl) now em =
              (if now < x then Some t else None)
            \<and> ((TokenCache_get (TokenCache_set cache set_time em t ttl) now em = None)
                 = (set_time + real_of_int ttl - now \<le> 60))"
      by simp
  qed
  show ?thesis
    using g b c3 c4 c5 unfolding E_def x_def eps_def by (intro conjI)
qed

text \<open>
  An instance: a token set at 1762400000 with a lifetime of 3600 seconds is returned at
  1762403539, and no longer at 1762403540 nor at 1762403541.
\<close>

theorem token_cache_set_get_double_witness:
  "TokenCache_get (TokenCache_set Map.empty 1762400000 ''a@x'' ''tok'' 3600) 1762403539 ''a@x''
     = Some ''tok''
   \<and> TokenCache_get (TokenCache_set Map.empty 1762400000 ''a@x'' ''tok'' 3600) 1762403540 ''a@x''
     = None
   \<and> TokenCache_get (TokenCache_set Map.empty 1762400000 ''a@x'' ''tok'' 3600) 1762403541 ''a@x''
     = None"
proof -
  have h3: "1762403539 + (\<bar>1762400000\<bar> + \<bar>real_of_int 3600\<bar> + 60) / 2 ^ 51
              < (1762400000::real) + real_of_int 3600 - 60"
    by simp
  have h4: "(1762400000::real) + real_of_int 3600 - 60
              + (\<bar>1762400000\<bar> + \<bar>real_of_int 3600\<bar> + 60) / 2 ^ 51 \<le> 1762403541"
    by simp
  have h5: "(1762400000::real) = real_of_int (1762400000 * 2 ^ 22) / 2 ^ 22
            \<and> \<bar>3600::int\<bar> < 2 ^ 53
            \<and> \<bar>1762400000 + real_of_int 3600\<bar> < 2 ^ 31
            \<and> \<bar>1762400000 + real_of_int 3600 - 60\<bar> < 2 ^ 31"
    by simp
  note c3 = conjunct2 [THEN conjunct2, THEN conjunct1, THEN mp]
  note c4 = conjunct2 [THEN conjunct2, THEN conjunct2, THEN conjunct1, THEN mp]
  note c5 = conjunct2 [THEN conjunct2, THEN conjunct2, THEN conjunct2, THEN mp, THEN conjunct1]
  have "TokenCache_get (TokenCache_set Map.empty 1762400000 ''a@x'' ''tok'' 3600) 1762403539 ''a@x''
          = Some ''tok''"
    using token_cache_set_get_double
            [of Map.empty 1762400000 "''a@x''" "''tok''" 3600 1762403539 "1762400000 * 2 ^ 22"]
          h3
    by (rule c3)
  moreover
  have "TokenCache_get (TokenCache_set Map.empty 1762400000 ''a@x'' ''tok'' 3600) 1762403540 ''a@x''
          = (if 1762403540 < (1762400000::real) + real_of_int 3600 - 60 then Some ''tok'' else None)"
    using token_cache_set_get_double
            [of Map.empty 1762400000 "''a@x''" "''tok''" 3600 1762403540 "1762400000 * 2 ^ 22"]
          h5
    by (rule c5)
  moreover
  have "TokenCache_get (TokenCache_set Map.empty 1762400000 ''a@x'' ''tok'' 3600) 1762403541 ''a@x''
          = None"
    using token_cache_set_get_double
            [of Map.empty 1762400000 "''a@x''" "''tok''" 3600 1762403541 "1762400000 * 2 ^ 22"]
          h4
    by (rule c4)
  ultimately show ?thesis by simp
qed

section \<open>Rate-limit ledger: properties\<close>

lemma map_of_dict_set: "map_of (dict_set kvs k v) = (map_of kvs)(k \<mapsto> v)"
  by (induction kvs k v rule: dict_set.induct) auto

text \<open>
  Claim C1 says that under a model filter \<open>get_min_wait_time_ms\<close> scans exactly the
  entries whose key ends in \<open>":" + model_id\<close> or has no \<open>":"\<close>. The code tests whether
  \<open>":" + model_id\<close> occurs anywhere in the key. With one account limited for
  \<open>claude-sonnet-4.5-thinking\<close> only, the wait reported for \<open>claude-sonnet-4.5\<close> is that
  entry's 5000 ms, where the claimed scan finds no entry; \<open>_is_account_rate_limited\<close>,
  which looks the exact key up, does not count the account as limited for
  \<open>claude-sonnet-4.5\<close>.
\<close>

theorem min_wait_scans_other_model:
  "get_min_wait_time_ms
     (mark_rate_limited [] 0 ''a@x'' (Some 5000) (Some ''claude-sonnet-4.5-thinking''))
     0 (Some ''claude-sonnet-4.5'') = 5000
   \<and> claimed_min_wait
     (mark_rate_limited [] 0 ''a@x'' (Some 5000) (Some ''claude-sonnet-4.5-thinking''))
     0 (Some ''claude-sonnet-4.5'') = None
   \<and> \<not> is_account_rate_limited
     (mark_rate_limited [] 0 ''a@x'' (Some 5000) (Some ''claude-sonnet-4.5-thinking''))
     \<lparr>email = ''a@x'', refresh_token = None, project_id = None, is_invalid = None,
      invalid_reason = None\<rparr>
     (Some ''claude-sonnet-4.5'') 0 0"
  by code_simp

text \<open>
  Claim C6 as stated (\<open>reset_time = now + reset_ms\<close> also for \<open>reset_ms = 0\<close>) fails:
  marking with \<open>reset_ms = 0\<close> at \<open>now = 1000\<close> does not store \<open>1000 + 0\<close>.
\<close>

theorem mark_rate_limited_zero_counterexample:
  "\<not> (map_option reset_time
         (map_of (mark_rate_limited [] 1000 ''a@x'' (Some 0) None) (get_rate_limit_key ''a@x'' None))
       = Some (1000 + real_of_int 0))"
  by (simp add: mark_rate_limited_def get_rate_limit_key_def str_truthy_def int_or_def
        DEFAULT_COOLDOWN_MS_def)

text \<open>
  Claim C6, amended. For every email, optional model and optional \<open>reset_ms\<close>,
  \<open>mark_rate_limited\<close> stores under the key of (email, model) the reset time
  \<open>now + reset_ms\<close> when \<open>reset_ms\<close> is given and not zero, and \<open>now + 60000\<close> when it is
  absent or zero (\<open>now\<close> is the reading of \<open>time.time() * 1000\<close>).
\<close>

theorem mark_rate_limited_reset_time:
  "map_of (mark_rate_limited rl now em reset_ms mid) (get_rate_limit_key em mid)
     = Some \<lparr>reset_time =
                now + real_of_int (case reset_ms of
                                          None \<Rightarrow> 60000
                                        | Some r \<Rightarrow> if r = 0 then 60000 else r),
              model_id = mid\<rparr>"
  by (simp add: mark_rate_limited_def map_of_dict_set int_or_def DEFAULT_COOLDOWN_MS_def
           split: option.splits)

section \<open>Reset-time parsing: properties\<close>

lemma lower_char_idem: "lower_char (lower_char c) = lower_char c"
  by (simp add: lower_char_def)

lemma lower_char_digit: "is_digit c \<Longrightarrow> lower_char c = c"
  by (simp add: lower_char_def is_digit_def Let_def)

lemma is_digit_lower_char: "is_digit (lower_char c) = is_digit c"
  by (auto simp: lower_char_def is_digit_def Let_def)

lemma startswith_ic_lower: "startswith_ic (lower s) l = startswith_ic s l"
  by (induction s l rule: startswith_ic.induct) (simp_all add: lower_def lower_char_idem)

lemma takeWhile_digit_lower: "takeWhile is_digit (lower s) = takeWhile is_digit s"
  by (induction s) (simp_all add: lower_def is_digit_lower_char lower_char_digit)

lemma dropWhile_digit_lower: "dropWhile is_digit (lower s) = lower (dropWhile is_digit s)"
  by (induction s) (simp_all add: lower_def is_digit_lower_char)

lemma drop_lower: "drop n (lower s) = lower (drop n s)"
  by (simp add: lower_def drop_map)



lemma re_match_here_lower:
  "plain_pattern p \<Longrightarrow> re_match_here True p (lower s) = re_match_here True p s"
proof (induction p arbitrary: s)
  case Nil
  show ?case by simp
next
  case (Cons x p)
  have pp: "plain_pattern p" using Cons.prems by (simp add: plain_pattern_def)
  show ?case
  proof (cases x)
    case (Lit l)
    then show ?thesis
      using Cons.IH [OF pp, of "drop (length l) s"]
      by (simp add: startswith_ic_lower drop_lower)
  next
    case Digits
    then show ?thesis
      using Cons.IH [OF pp, of "dropWhile is_digit s"]
      by (simp add: takeWhile_digit_lower dropWhile_digit_lower)
  next
    case (OptCls cs)
    then show ?thesis using Cons.prems by (simp add: plain_pattern_def)
  qed
qed

lemma re_search_lower:
  "plain_pattern p \<Longrightarrow> re_search True p (lower s) = re_search True p s"
proof (induction s)
  case Nil
  then show ?case using re_match_here_lower [of p "[]"] by (simp add: lower_def)
next
  case (Cons c s)
  have "lower (c # s) = lower_char c # lower s" by (simp add: lower_def)
  moreover have "re_match_here True p (lower_char c # lower s) = re_match_here True p (c # s)"
    using re_match_here_lower [OF Cons.prems, of "c # s"] by (simp add: lower_def)
  ultimately show ?case using Cons by (simp split: option.splits)
qed

lemma parse_reset_loop_lower:
  "\<forall>p \<in> set ps. plain_pattern p \<Longrightarrow> parse_reset_loop ps (lower s) = parse_reset_loop ps s"
  by (induction ps) (simp_all add: re_search_lower split: option.splits)

lemma reset_patterns_plain: "\<forall>p \<in> set reset_patterns. plain_pattern p"
  by (simp add: reset_patterns_def plain_pattern_def)

lemma parse_reset_lower: "parse_reset_time_from_error (lower s) = parse_reset_time_from_error s"
  unfolding parse_reset_time_from_error_def
  by (rule parse_reset_loop_lower [OF reset_patterns_plain])

lemma parse_reset_loop_None:
  "(parse_reset_loop ps s = None) = (\<forall>p \<in> set ps. re_search True p s = None)"
  by (induction ps) (auto split: option.splits)

lemma re_search_skip:
  "\<not> begins_within l pre rest \<Longrightarrow>
     re_search True (Lit l # p) (pre @ rest) = re_search True (Lit l # p) rest"
  by (induction pre) simp_all

lemma re_search_absent:
  assumes "\<not> begins_within l s []" and "l \<noteq> []"
  shows "re_search True (Lit l # p) s = None"
proof -
  have "re_search True (Lit l # p) (s @ []) = re_search True (Lit l # p) []"
    using assms(1) by (rule re_search_skip)
  moreover have "\<not> startswith_ic [] l" using assms(2) by (cases l) simp_all
  ultimately show ?thesis by simp
qed

lemma lower_char_lits:
  "lower_char (CHR ''r'') = CHR ''r''"
  "lower_char (CHR ''e'') = CHR ''e''"
  "lower_char (CHR ''s'') = CHR ''s''"
  "lower_char (CHR ''t'') = CHR ''t''"
  "lower_char (CHR '' '') = CHR '' ''"
  "lower_char (CHR ''a'') = CHR ''a''"
  "lower_char (CHR ''f'') = CHR ''f''"
  "lower_char (CHR ''h'') = CHR ''h''"
  "lower_char (CHR ''m'') = CHR ''m''"
  "lower_char (CHR ''0'') = CHR ''0''"
  "lower_char (CHR ''1'') = CHR ''1''"
  "lower_char (CHR ''5'') = CHR ''5''"
  by (simp_all add: lower_char_def)

lemma is_digit_lits:
  "is_digit (CHR ''0'')" "is_digit (CHR ''1'')" "is_digit (CHR ''5'')"
  "\<not> is_digit (CHR ''h'')" "\<not> is_digit (CHR ''m'')" "\<not> is_digit (CHR ''s'')"
  by (simp_all add: is_digit_def)

lemma match_1h0m0s:
  "re_match_here True (reset_patterns ! 0) (''reset after 1h0m0s'' @ post) = Some [''1'', ''0'', ''0'']"
  by (simp add: reset_patterns_def lower_char_lits is_digit_lits)

lemma ms_1h0m0s: "reset_ms_of_groups (reset_patterns ! 0) [''1'', ''0'', ''0''] = 3600000"
  by code_simp

lemma reset_patterns_Lit:
  "p \<in> set reset_patterns \<Longrightarrow> \<exists>q. p = Lit ''reset after '' # q"
  by (auto simp: reset_patterns_def)

lemma parse_1h0m0s_within:
  assumes "\<not> begins_within ''reset after '' pre (''reset after 1h0m0s'' @ post)"
  shows "parse_reset_time_from_error (pre @ ''reset after 1h0m0s'' @ post) = Some 3600000"
proof -
  obtain q where q: "reset_patterns ! 0 = Lit ''reset after '' # q"
    by (simp add: reset_patterns_def)
  have "re_search True (reset_patterns ! 0) (pre @ ''reset after 1h0m0s'' @ post)
          = re_search True (reset_patterns ! 0) (''reset after 1h0m0s'' @ post)"
    unfolding q using assms by (rule re_search_skip)
  also have "\<dots> = Some [''1'', ''0'', ''0'']"
    using match_1h0m0s [of post] by simp
  finally have "re_search True (reset_patterns ! 0) (pre @ ''reset after 1h0m0s'' @ post)
          = Some [''1'', ''0'', ''0'']" .
  moreover obtain ps where "reset_patterns = (reset_patterns ! 0) # ps"
    by (simp add: reset_patterns_def)
  ultimately show ?thesis
    unfolding parse_reset_time_from_error_def
    by (metis parse_reset_loop.simps(2) option.simps(5) ms_1h0m0s)
qed

lemma tail_5m_none:
  assumes "p \<in> set reset_patterns" and "\<not> begins_within ''reset after '' post []"
  shows "re_search True p (''eset after 5m'' @ post) = None"
proof -
  obtain q where q: "p = Lit ''reset after '' # q"
    using assms(1) reset_patterns_Lit by blast
  have "\<not> begins_within ''reset after '' ''eset after 5m'' post"
    by (simp add: lower_char_lits)
  then have "re_search True p (''eset after 5m'' @ post) = re_search True p post"
    unfolding q by (rule re_search_skip)
  also have "\<dots> = None"
    unfolding q using assms(2) by (rule re_search_absent) simp
  finally show ?thesis .
qed

lemma match_5m:
  assumes "post = [] \<or> \<not> is_digit (hd post)"
  shows "re_match_here True (reset_patterns ! 0) (''reset after 5m'' @ post) = None"
    and "re_match_here True (reset_patterns ! 1) (''reset after 5m'' @ post) = None"
    and "re_match_here True (reset_patterns ! 2) (''reset after 5m'' @ post) = None"
    and "re_match_here True (reset_patterns ! 3) (''reset after 5m'' @ post) = None"
    and "re_match_here True (reset_patterns ! 4) (''reset after 5m'' @ post) = Some [''5'']"
proof -
  have tw: "takeWhile is_digit post = []"
    using assms by (cases post) simp_all
  show "re_match_here True (reset_patterns ! 0) (''reset after 5m'' @ post) = None"
    by (simp add: reset_patterns_def lower_char_lits is_digit_lits)
  show "re_match_here True (reset_patterns ! 1) (''reset after 5m'' @ post) = None"
    by (simp add: reset_patterns_def lower_char_lits is_digit_lits)
  show "re_match_here True (reset_patterns ! 2) (''reset after 5m'' @ post) = None"
    by (simp add: reset_patterns_def lower_char_lits is_digit_lits)
  show "re_match_here True (reset_patterns ! 3) (''reset after 5m'' @ post) = None"
    using tw by (simp add: reset_patterns_def lower_char_lits is_digit_lits)
  show "re_match_here True (reset_patterns ! 4) (''reset after 5m'' @ post) = Some [''5'']"
    by (simp add: reset_patterns_def lower_char_lits is_digit_lits)
qed

lemma ms_5m: "reset_ms_of_groups (reset_patterns ! 4) [''5''] = 300000"
  by code_simp

lemma search_5m:
  assumes pre: "\<not> begins_within ''reset after '' pre (''reset after 5m'' @ post)"
    and post: "\<not> begins_within ''reset after '' post []"
    and nd: "post = [] \<or> \<not> is_digit (hd post)"
    and p: "p \<in> set reset_patterns"
  shows "re_search True p (pre @ ''reset after 5m'' @ post)
           = re_match_here True p (''reset after 5m'' @ post)"
proof -
  obtain q where q: "p = Lit ''reset after '' # q"
    using p reset_patterns_Lit by blast
  have split: "''reset after 5m'' @ post = CHR ''r'' # ''eset after 5m'' @ post"
    by simp
  have "re_search True p (pre @ ''reset after 5m'' @ post)
          = re_search True p (''reset after 5m'' @ post)"
    unfolding q using pre by (rule re_search_skip)
  also have "\<dots> = re_search True p (CHR ''r'' # ''eset after 5m'' @ post)"
    by (simp only: split)
  also have "\<dots> = (case re_match_here True p (CHR ''r'' # ''eset after 5m'' @ post) of
                      Some g \<Rightarrow> Some g
                    | None \<Rightarrow> re_search True p (''eset after 5m'' @ post))"
    by (rule re_search.simps(2))
  also have "\<dots> = re_match_here True p (CHR ''r'' # ''eset after 5m'' @ post)"
    unfolding tail_5m_none [OF p post]
    by (cases "re_match_here True p (CHR ''r'' # ''eset after 5m'' @ post)") simp_all
  also have "\<dots> = re_match_here True p (''reset after 5m'' @ post)"
    by (simp only: split)
  finally show ?thesis .
qed

lemma parse_5m_within:
  assumes pre: "\<not> begins_within ''reset after '' pre (''reset after 5m'' @ post)"
    and post: "\<not> begins_within ''reset after '' post []"
    and nd: "post = [] \<or> \<not> is_digit (hd post)"
  shows "parse_reset_time_from_error (pre @ ''reset after 5m'' @ post) = Some 300000"
proof -
  let ?s = "pre @ ''reset after 5m'' @ post"
  have len: "length reset_patterns = 6"
    by (simp add: reset_patterns_def)
  have mem: "reset_patterns ! k \<in> set reset_patterns" if "k < 6" for k
    using that len nth_mem [of k reset_patterns] by simp
  have s: "re_search True (reset_patterns ! k) ?s
             = re_match_here True (reset_patterns ! k) (''reset after 5m'' @ post)" if "k < 6" for k
    using search_5m [OF pre post nd mem [OF that]] .
  have r: "re_search True (reset_patterns ! 0) ?s = None"
    "re_search True (reset_patterns ! 1) ?s = None"
    "re_search True (reset_patterns ! 2) ?s = None"
    "re_search True (reset_patterns ! 3) ?s = None"
    "re_search True (reset_patterns ! 4) ?s = Some [''5'']"
    using s match_5m [OF nd] by simp_all
  have l: "reset_patterns = [reset_patterns ! 0, reset_patterns ! 1, reset_patterns ! 2,
                             reset_patterns ! 3, reset_patterns ! 4, reset_patterns ! 5]"
    by (simp add: reset_patterns_def)
  have "parse_reset_loop [reset_patterns ! 0, reset_patterns ! 1, reset_patterns ! 2,
                             reset_patterns ! 3, reset_patterns ! 4, reset_patterns ! 5] ?s
          = Some 300000"
    by (simp only: parse_reset_loop.simps r option.case ms_5m)
  then have "parse_reset_loop reset_patterns ?s = Some 300000"
    by (subst l)
  then show ?thesis
    unfolding parse_reset_time_from_error_def .
qed

text \<open>
  Claim C7. \<open>parse_reset_time_from_error\<close> returns 3600000 for \<open>reset after 1h0m0s\<close> and
  300000 for \<open>reset after 5m\<close>, also inside a longer text: for the first phrase when no
  other \<open>reset after\<close> begins before it, for the second when it is the only
  \<open>reset after\<close> of the text and no digit follows it. The result depends on the text
  only up to the case of its letters. For a text that none of the patterns matches the
  result is \<open>None\<close>, and \<open>mark_rate_limited\<close> then applies the default cooldown of
  60000 ms.
\<close>

theorem reset_time_parsing:
  "parse_reset_time_from_error ''reset after 1h0m0s'' = Some 3600000
   \<and> parse_reset_time_from_error ''reset after 5m'' = Some 300000
   \<and> (\<not> begins_within ''reset after '' pre (''reset after 1h0m0s'' @ post) \<longrightarrow>
        parse_reset_time_from_error (pre @ ''reset after 1h0m0s'' @ post) = Some 3600000)
   \<and> (\<not> begins_within ''reset after '' pre (''reset after 5m'' @ post)
        \<and> \<not> begins_within ''reset after '' post [] \<and> (post = [] \<or> \<not> is_digit (hd post)) \<longrightarrow>
        parse_reset_time_from_error (pre @ ''reset after 5m'' @ post) = Some 300000)
   \<and> (lower s = lower s' \<longrightarrow> parse_reset_time_from_error s = parse_reset_time_from_error s')
   \<and> ((\<forall>p \<in> set reset_patterns. re_search True p u = None) \<longrightarrow>
        parse_reset_time_from_error u = None
        \<and> map_of (mark_rate_limited rl now em (parse_reset_time_from_error u) mid)
              (get_rate_limit_key em mid)
            = Some \<lparr>reset_time = now + 60000, model_id = mid\<rparr>)"
proof -
  have a: "parse_reset_time_from_error ''reset after 1h0m0s'' = Some 3600000"
    using parse_1h0m0s_within [of "[]" "[]"] by simp
  have b: "parse_reset_time_from_error ''reset after 5m'' = Some 300000"
    using parse_5m_within [of "[]" "[]"] by simp
  have c: "parse_reset_time_from_error s = parse_reset_time_from_error s'" if "lower s = lower s'"
    using parse_reset_lower [of s] parse_reset_lower [of s'] that by simp
  have d: "parse_reset_time_from_error u = None
        \<and> map_of (mark_rate_limited rl now em (parse_reset_time_from_error u) mid)
              (get_rate_limit_key em mid)
            = Some \<lparr>reset_time = now + 60000, model_id = mid\<rparr>"
    if "\<forall>p \<in> set reset_patterns. re_search True p u = None"
  proof -
    have "parse_reset_time_from_error u = None"
      unfolding parse_reset_time_from_error_def parse_reset_loop_None using that .
    then show ?thesis
      by (simp add: mark_rate_limited_def map_of_dict_set int_or_def DEFAULT_COOLDOWN_MS_def)
  qed
  show ?thesis
    using a b c d parse_1h0m0s_within [of pre post] parse_5m_within [of pre post] by blast
qed

lemma reset_examples:
  "\<not> begins_within ''reset after '' ''Quota exceeded; '' (''reset after 1h0m0s'' @ ''. Retry later'')"
  "\<not> begins_within ''reset after '' ''Quota exceeded; '' (''reset after 5m'' @ ''. Retry later'')"
  "\<not> begins_within ''reset after '' ''. Retry later'' []"
  "''. Retry later'' = [] \<or> \<not> is_digit (hd ''. Retry later'')"
  "lower ''RESET AFTER 5M'' = lower ''reset after 5m''"
  "\<forall>p \<in> set reset_patterns. re_search True p ''quota exhausted'' = None"
  by code_simp+

theorem reset_time_parsing_witness:
  "parse_reset_time_from_error (''Quota exceeded; '' @ ''reset after 1h0m0s'' @ ''. Retry later'')
       = Some 3600000
   \<and> parse_reset_time_from_error (''Quota exceeded; '' @ ''reset after 5m'' @ ''. Retry later'')
       = Some 300000
   \<and> lower ''RESET AFTER 5M'' = lower ''reset after 5m''
   \<and> parse_reset_time_from_error ''RESET AFTER 5M'' = parse_reset_time_from_error ''reset after 5m''
   \<and> parse_reset_time_from_error ''quota exhausted'' = None"
  using reset_examples
    reset_time_parsing [where pre = "''Quota exceeded; ''" and post = "''. Retry later''"
      and s = "''RESET AFTER 5M''" and s' = "''reset after 5m''" and u = "''quota exhausted''"]
  by blast

section \<open>Account selector: properties\<close>

lemma pick_next_available:
  assumes ne: "get_accounts (authenticator_of m) \<noteq> []"
    and av: "all_available m mid [clk]"
  shows "pick_next m mid clk =
           (Some (get_accounts (authenticator_of m)
                    ! ((current_index m + 1) mod length (get_accounts (authenticator_of m)))),
            m\<lparr>current_index :=
                (current_index m + 1) mod length (get_accounts (authenticator_of m))\<rparr>)"
proof -
  let ?accts = "get_accounts (authenticator_of m)"
  let ?n = "length ?accts"
  let ?i = "(current_index m + 1) mod ?n"
  have n: "0 < ?n" using ne by simp
  then have "?i < ?n" by simp
  then have mem: "?accts ! ?i \<in> set ?accts" by simp
  obtain k where k: "?n = Suc k" using n by (cases ?n) auto
  obtain t1 t2 where t: "clk (?n - Suc k) = (t1, t2)" by (cases "clk (?n - Suc k)") auto
  have "\<not> is_account_rate_limited (rate_limits m) (heap (authenticator_of m) (?accts ! ?i)) mid
             (fst (clk (?n - Suc k))) (snd (clk (?n - Suc k)))"
    using av mem unfolding all_available_def by simp
  then have ok1: "\<not> is_account_rate_limited (rate_limits m) (heap (authenticator_of m) (?accts ! ?i)) mid t1 t2"
    using t by simp
  have ok2: "\<not> is_account_invalid (heap (authenticator_of m) (?accts ! ?i))"
    using av mem unfolding all_available_def by simp
  have "pick_next_loop (authenticator_of m) (rate_limits m) mid clk ?accts (Suc k) (current_index m)
          = Some (?accts ! ?i, ?i)"
    using ok1 ok2 t by (simp add: Let_def)
  then have "pick_next_loop (authenticator_of m) (rate_limits m) mid clk ?accts ?n (current_index m)
          = Some (?accts ! ?i, ?i)"
    using k by simp
  then show ?thesis
    using ne by (simp add: pick_next_def Let_def)
qed


lemma all_available_index:
  "all_available (m\<lparr>current_index := i\<rparr>) mid clks = all_available m mid clks"
  by (simp add: all_available_def)

lemma all_available_Cons:
  "all_available m mid (clk # clks) \<Longrightarrow> all_available m mid [clk] \<and> all_available m mid clks"
  by (simp add: all_available_def)

lemma index_shift:
  "((c + 1) mod n + j + 1) mod n = (c + Suc j + 1) mod (n::nat)"
proof -
  have "((c + 1) mod n + (j + 1)) mod n = ((c + 1) + (j + 1)) mod n"
    by (rule mod_add_left_eq)
  then show ?thesis by (simp add: add.assoc)
qed

lemma pick_next_calls_available:
  assumes "get_accounts (authenticator_of m) \<noteq> []" and "all_available m mid clks"
  shows "pick_next_calls m mid clks =
           map (\<lambda>j. (Some (get_accounts (authenticator_of m)
                             ! ((current_index m + j + 1) mod length (get_accounts (authenticator_of m)))),
                      m\<lparr>current_index :=
                          (current_index m + j + 1) mod length (get_accounts (authenticator_of m))\<rparr>))
               [0..<length clks]"
  using assms
proof (induction clks arbitrary: m)
  case Nil
  show ?case by simp
next
  case (Cons clk clks)
  define accts where "accts = get_accounts (authenticator_of m)"
  define n where "n = length accts"
  define c where "c = current_index m"
  define m' where "m' = m\<lparr>current_index := (c + 1) mod n\<rparr>"
  define f where "f = (\<lambda>j. (Some (accts ! ((c + j + 1) mod n)), m\<lparr>current_index := (c + j + 1) mod n\<rparr>))"
  have av: "all_available m mid [clk]" "all_available m mid clks"
    using Cons.prems(2) all_available_Cons by blast+
  have step: "pick_next m mid clk = (Some (accts ! ((c + 1) mod n)), m')"
    using pick_next_available [OF Cons.prems(1) av(1)]
    by (simp add: accts_def n_def c_def m'_def)
  have m'_facts: "get_accounts (authenticator_of m') = accts" "current_index m' = (c + 1) mod n"
    "\<And>i. m'\<lparr>current_index := i\<rparr> = m\<lparr>current_index := i\<rparr>"
    by (simp_all add: m'_def accts_def)
  have av': "all_available m' mid clks"
    using av(2) by (simp add: m'_def all_available_index)
  have ne': "get_accounts (authenticator_of m') \<noteq> []"
    using Cons.prems(1) by (simp add: m'_def)
  have "pick_next_calls m' mid clks =
           map (\<lambda>j. (Some (get_accounts (authenticator_of m')
                             ! ((current_index m' + j + 1) mod length (get_accounts (authenticator_of m')))),
                      m'\<lparr>current_index :=
                          (current_index m' + j + 1) mod length (get_accounts (authenticator_of m'))\<rparr>))
               [0..<length clks]"
    by (rule Cons.IH [OF ne' av'])
  then have "pick_next_calls m' mid clks =
           map (\<lambda>j. (Some (accts ! (((c + 1) mod n + j + 1) mod n)),
                      m\<lparr>current_index := ((c + 1) mod n + j + 1) mod n\<rparr>))
               [0..<length clks]"
    by (simp only: m'_facts n_def [symmetric])
  then have ih: "pick_next_calls m' mid clks = map (\<lambda>j. f (Suc j)) [0..<length clks]"
    by (simp only: index_shift f_def)
  have "pick_next_calls m mid (clk # clks) = f 0 # map (\<lambda>j. f (Suc j)) [0..<length clks]"
    using step ih by (simp add: f_def m'_def)
  also have "\<dots> = map f (0 # map Suc [0..<length clks])"
    by (simp add: comp_def)
  also have "0 # map Suc [0..<length clks] = [0..<length (clk # clks)]"
    by (simp add: upt_conv_Cons map_Suc_upt del: upt_Suc)
  finally show ?case
    by (simp only: f_def accts_def n_def c_def)
qed

lemma round_robin_reaches:
  assumes "p < (n::nat)"
  shows "\<exists>j<n. (i + j + 1) mod n = p"
proof -
  define q where "q = (i + 1) mod n"
  define j where "j = (p + (n - q)) mod n"
  have n: "0 < n" using assms by simp
  then have le: "q \<le> n" by (simp add: q_def less_imp_le)
  have "(i + j + 1) mod n = ((i + 1) + j) mod n"
    by (simp add: ac_simps)
  also have "\<dots> = (q + j) mod n"
    unfolding q_def by (rule mod_add_left_eq [symmetric])
  also have "\<dots> = (q + (p + (n - q))) mod n"
    unfolding j_def by (rule mod_add_right_eq)
  also have "q + (p + (n - q)) = p + n"
    using le by simp
  also have "(p + n) mod n = p" using assms by simp
  finally have "(i + j + 1) mod n = p" .
  moreover have "j < n" using n by (simp add: j_def)
  ultimately show ?thesis by blast
qed

text \<open>
  Claim C9. For a non-empty account list of size \<open>n\<close> in which no account is invalid or
  rate-limited, and with no other change of state, \<open>n\<close> successive calls of \<open>pick_next\<close>
  return every account of the list at least once, and each call leaves the index at
  one more than it found it, modulo \<open>n\<close>.
\<close>

theorem pick_next_round_robin:
  assumes ne: "get_accounts (authenticator_of m) \<noteq> []"
    and len: "length clks = length (get_accounts (authenticator_of m))"
    and av: "all_available m mid clks"
  shows "(\<forall>r \<in> set (get_accounts (authenticator_of m)).
            Some r \<in> set (map fst (pick_next_calls m mid clks)))
       \<and> (\<forall>j < length clks.
            current_index (snd (pick_next_calls m mid clks ! j))
              = (current_index (if j = 0 then m else snd (pick_next_calls m mid clks ! (j - 1))) + 1)
                  mod length (get_accounts (authenticator_of m)))"
proof -
  define accts where "accts = get_accounts (authenticator_of m)"
  define n where "n = length accts"
  define c where "c = current_index m"
  define f where "f = (\<lambda>j. (Some (accts ! ((c + j + 1) mod n)), m\<lparr>current_index := (c + j + 1) mod n\<rparr>))"
  have calls: "pick_next_calls m mid clks = map f [0..<n]"
    using pick_next_calls_available [OF ne av] len
    by (simp only: f_def accts_def n_def c_def)
  have nth: "pick_next_calls m mid clks ! j = f j" if "j < n" for j
    using that by (simp add: calls)
  have visit: "Some r \<in> set (map fst (pick_next_calls m mid clks))" if "r \<in> set accts" for r
  proof -
    from that obtain p where p: "p < n" "accts ! p = r"
      unfolding n_def in_set_conv_nth by blast
    then obtain j where j: "j < n" "(c + j + 1) mod n = p"
      using round_robin_reaches by blast
    have eq: "fst (f j) = Some r" using j p by (simp add: f_def)
    have "f j \<in> set (pick_next_calls m mid clks)"
      using j(1) unfolding calls by simp
    then have "fst (f j) \<in> fst ` set (pick_next_calls m mid clks)"
      by (rule imageI)
    then show ?thesis
      unfolding eq set_map .
  qed
  have len': "length clks = n"
    using len unfolding n_def accts_def .
  have f_index: "current_index (snd (f j)) = (c + j + 1) mod n" for j
    by (simp add: f_def)
  have adv: "current_index (snd (pick_next_calls m mid clks ! j))
              = (current_index (if j = 0 then m else snd (pick_next_calls m mid clks ! (j - 1))) + 1) mod n"
    if "j < length clks" for j
  proof (cases j)
    case 0
    have "0 < n" using that 0 len' by simp
    then have "pick_next_calls m mid clks ! 0 = f 0" by (rule nth)
    then show ?thesis using 0 by (simp add: f_index c_def)
  next
    case (Suc j')
    have lt: "j' < n" "Suc j' < n" using that Suc len' by simp_all
    have "pick_next_calls m mid clks ! j' = f j'" "pick_next_calls m mid clks ! Suc j' = f (Suc j')"
      using lt nth by blast+
    then show ?thesis
      using Suc by (simp add: f_index mod_Suc_eq)
  qed
  show ?thesis
    using visit adv unfolding accts_def n_def by blast
qed

lemma two_accounts_list: "get_accounts (authenticator_of two_accounts) = [0, 1]"
  by (simp add: two_accounts_def AccountManager_init_def Authenticator_init_def
        new_dict_def get_accounts_def)

lemma two_accounts_available:
  "all_available two_accounts (Some ''gemini-3-flash'') [\<lambda>j. (10000, 10000), \<lambda>j. (11000, 11000)]"
  unfolding all_available_def two_accounts_list
  by (simp add: two_accounts_def AccountManager_init_def Authenticator_init_def
        new_dict_def is_account_invalid_def is_account_rate_limited_def mark_rate_limited_def
        get_rate_limit_key_def str_truthy_def int_or_def)

theorem pick_next_round_robin_witness:
  "get_accounts (authenticator_of two_accounts) = [0, 1]
   \<and> all_available two_accounts (Some ''gemini-3-flash'') [\<lambda>j. (10000, 10000), \<lambda>j. (11000, 11000)]
   \<and> Some 0 \<in> set (map fst (pick_next_calls two_accounts (Some ''gemini-3-flash'')
                                [\<lambda>j. (10000, 10000), \<lambda>j. (11000, 11000)]))
   \<and> Some 1 \<in> set (map fst (pick_next_calls two_accounts (Some ''gemini-3-flash'')
                                [\<lambda>j. (10000, 10000), \<lambda>j. (11000, 11000)]))"
  using pick_next_round_robin [of two_accounts "[\<lambda>j. (10000, 10000), \<lambda>j. (11000, 11000)]"
      "Some ''gemini-3-flash''"] two_accounts_available
  unfolding two_accounts_list by simp

section \<open>Account store: properties\<close>

text \<open>
  Claim C2 as stated (the persisted document never contains \<open>is_invalid\<close> or
  \<open>invalid_reason\<close>) fails: \<open>mark_invalid\<close> writes into the account dict that the
  authenticator's list refers to, and the next save writes that dict. After
  \<open>mark_invalid("a@x")\<close> and the removal of \<open>b@x\<close> the document holds \<open>a@x\<close> with both
  fields.
\<close>

theorem invalid_flag_persisted_counterexample:
  "persisted_accounts
     (store_run (AccountManager_init (Some ab_doc))
        [MarkInvalid ''a@x'' ''Auth error'', RemoveAccount ''b@x''])
   = [\<lparr>email = ''a@x'', refresh_token = Some ''ra'', project_id = Some ''p1'',
       is_invalid = Some True, invalid_reason = Some ''Auth error''\<rparr>]"
  by (simp add: persisted_accounts_def AccountManager_init_def Authenticator_init_def ab_doc_def
        new_dict_def mark_invalid_def get_accounts_def remove_account_def save_accounts_def
        TokenCache_clear_def ProjectCache_clear_def Let_def)

lemma flags_within_mono: "flags_within M a \<Longrightarrow> M \<subseteq> N \<Longrightarrow> flags_within N a"
  unfolding flags_within_def by blast

lemma flags_within_save: "flags_within M a \<Longrightarrow> flags_within M (save_accounts a)"
  by (simp add: flags_within_def save_accounts_def)

lemma flags_within_caches:
  "flags_within M (a\<lparr>token_cache := tc\<rparr>) = flags_within M a"
  "flags_within M (a\<lparr>project_cache := pc\<rparr>) = flags_within M a"
  by (simp_all add: flags_within_def)

lemma flags_within_new_dict:
  assumes "flags_within M a" and "\<not> has_invalid_fields acct"
  shows "flags_within M ((snd (new_dict a acct))\<lparr>accounts := accounts a @ [fst (new_dict a acct)]\<rparr>)"
  using assms by (simp add: flags_within_def new_dict_def)

lemma flags_within_heap_update:
  assumes "flags_within M a"
    and "has_invalid_fields acct \<longrightarrow> has_invalid_fields (heap a r)"
    and "email acct = email (heap a r)"
  shows "flags_within M (a\<lparr>heap := (heap a)(r := acct)\<rparr>)"
  using assms by (simp add: flags_within_def)

lemma flags_within_filter:
  "flags_within M a \<Longrightarrow> flags_within M (a\<lparr>accounts := filter P (accounts a)\<rparr>)"
  by (simp add: flags_within_def)

lemma flags_within_add_account_interactive:
  assumes "flags_within M a"
  shows "flags_within M (snd (add_account_interactive a now flow))"
proof (cases flow)
  case (Inl e)
  then show ?thesis using assms by (simp add: add_account_interactive_def)
next
  case (Inr g)
  let ?new = "\<lparr>email = grant_email g, refresh_token = grant_refresh_token g,
               project_id = grant_project_id g, is_invalid = None, invalid_reason = None\<rparr>"
  show ?thesis
  proof (cases "find (\<lambda>r. email (heap a r) = grant_email g) (accounts a)")
    case None
    have "flags_within M ((snd (new_dict a ?new))\<lparr>accounts := accounts a @ [fst (new_dict a ?new)]\<rparr>)"
      using assms by (rule flags_within_new_dict) (simp add: has_invalid_fields_def)
    then have "flags_within M (save_accounts ((snd (new_dict a ?new))\<lparr>accounts := accounts a @ [fst (new_dict a ?new)]\<rparr>))"
      by (rule flags_within_save)
    then show ?thesis
      using Inr None
      by (simp add: add_account_interactive_def Let_def flags_within_caches new_dict_def)
  next
    case (Some existing)
    have "flags_within M (a\<lparr>heap := (heap a)(existing := (heap a existing)
              \<lparr>refresh_token := grant_refresh_token g, project_id := grant_project_id g\<rparr>)\<rparr>)"
      using assms by (rule flags_within_heap_update) (simp_all add: has_invalid_fields_def)
    then have "flags_within M (save_accounts (a\<lparr>heap := (heap a)(existing := (heap a existing)
              \<lparr>refresh_token := grant_refresh_token g, project_id := grant_project_id g\<rparr>)\<rparr>))"
      by (rule flags_within_save)
    then show ?thesis
      using Inr Some
      by (simp add: add_account_interactive_def Let_def flags_within_caches)
  qed
qed

lemma flags_within_auth_callback_store:
  assumes "flags_within M a"
  shows "flags_within M (auth_callback_store a now g)"
proof -
  let ?new = "\<lparr>email = grant_email g, refresh_token = grant_refresh_token g,
               project_id = grant_project_id g, is_invalid = None, invalid_reason = None\<rparr>"
  show ?thesis
  proof (cases "find (\<lambda>r. email (heap a r) = grant_email g) (accounts a)")
    case None
    have "flags_within M ((snd (new_dict a ?new))\<lparr>accounts := accounts a @ [fst (new_dict a ?new)]\<rparr>)"
      using assms by (rule flags_within_new_dict) (simp add: has_invalid_fields_def)
    then have "flags_within M (save_accounts ((snd (new_dict a ?new))\<lparr>accounts := accounts a @ [fst (new_dict a ?new)]\<rparr>))"
      by (rule flags_within_save)
    then show ?thesis
      using None
      by (simp add: auth_callback_store_def Let_def flags_within_caches new_dict_def
            get_accounts_def)
  next
    case (Some existing)
    have "flags_within M (a\<lparr>heap := (heap a)(existing := (heap a existing)
              \<lparr>refresh_token := grant_refresh_token g, project_id := grant_project_id g,
               is_invalid := None\<rparr>)\<rparr>)"
      using assms by (rule flags_within_heap_update) (simp_all add: has_invalid_fields_def)
    then have "flags_within M (save_accounts (a\<lparr>heap := (heap a)(existing := (heap a existing)
              \<lparr>refresh_token := grant_refresh_token g, project_id := grant_project_id g,
               is_invalid := None\<rparr>)\<rparr>))"
      by (rule flags_within_save)
    then show ?thesis
      using Some
      by (simp add: auth_callback_store_def Let_def flags_within_caches get_accounts_def)
  qed
qed

lemma flags_within_remove_account:
  assumes "flags_within M a"
  shows "flags_within M (snd (remove_account a em))"
proof -
  let ?a1 = "a\<lparr>accounts := filter (\<lambda>r. email (heap a r) \<noteq> em) (accounts a)\<rparr>"
  have f: "flags_within M ?a1"
    using assms by (rule flags_within_filter)
  then have "flags_within M (save_accounts ?a1)"
    by (rule flags_within_save)
  then show ?thesis
    using f by (simp add: remove_account_def Let_def flags_within_caches)
qed

lemma flags_within_get_project_for_account:
  assumes "flags_within M a"
  shows "flags_within M (snd (get_project_for_account a acct discovered))"
proof -
  have "flags_within M (a\<lparr>heap := (heap a)(acct := (heap a acct)\<lparr>project_id := discovered\<rparr>)\<rparr>)"
    using assms by (rule flags_within_heap_update) (simp_all add: has_invalid_fields_def)
  then have "flags_within M (save_accounts (a\<lparr>heap := (heap a)(acct := (heap a acct)\<lparr>project_id := discovered\<rparr>)\<rparr>))"
    by (rule flags_within_save)
  then have "flags_within M (save_accounts
              (a\<lparr>project_cache := pc,
                 heap := (heap a)(acct := (heap a acct)\<lparr>project_id := discovered\<rparr>)\<rparr>))" for pc
    by (simp add: flags_within_def save_accounts_def)
  then show ?thesis
    using assms by (simp add: get_project_for_account_def Let_def flags_within_caches)
qed

lemma flags_within_mark_invalid:
  assumes "flags_within M (authenticator_of m)"
  shows "flags_within (insert em M) (authenticator_of (mark_invalid m em reason))"
proof (cases "find (\<lambda>r. email (heap (authenticator_of m) r) = em) (get_accounts (authenticator_of m))")
  case None
  then show ?thesis
    using flags_within_mono [OF assms, of "insert em M"] by (auto simp: mark_invalid_def)
next
  case (Some r)
  then have "email (heap (authenticator_of m) r) = em"
    by (auto simp: find_Some_iff)
  then show ?thesis
    using Some assms by (auto simp: mark_invalid_def Let_def flags_within_def)
qed

lemma flags_within_step:
  assumes "flags_within M (authenticator_of m)"
  shows "flags_within (M \<union> set (marked_emails [x])) (authenticator_of (store_step m x))"
proof (cases x)
  case (MarkInvalid em reason)
  then show ?thesis using flags_within_mark_invalid [OF assms, of em reason] by simp
next
  case (AddAccountInteractive now flow)
  then show ?thesis using flags_within_add_account_interactive [OF assms] by simp
next
  case (AuthCallback now g)
  then show ?thesis using flags_within_auth_callback_store [OF assms] by simp
next
  case (RemoveAccount em)
  then show ?thesis using flags_within_remove_account [OF assms] by simp
next
  case (GetProject acct discovered)
  then show ?thesis using flags_within_get_project_for_account [OF assms] by simp
next
  case SaveAccounts
  then show ?thesis using flags_within_save [OF assms] by simp
qed

lemma marked_emails_Cons:
  "set (marked_emails (x # xs)) = set (marked_emails [x]) \<union> set (marked_emails xs)"
  by (cases x) simp_all

lemma flags_within_run:
  "flags_within M (authenticator_of m) \<Longrightarrow>
     flags_within (M \<union> set (marked_emails xs)) (authenticator_of (store_run m xs))"
proof (induction xs arbitrary: m M)
  case Nil
  then show ?case by simp
next
  case (Cons x xs)
  have "flags_within (M \<union> set (marked_emails [x])) (authenticator_of (store_step m x))"
    using Cons.prems by (rule flags_within_step)
  then have "flags_within ((M \<union> set (marked_emails [x])) \<union> set (marked_emails xs))
               (authenticator_of (store_run (store_step m x) xs))"
    by (rule Cons.IH)
  then show ?case
    by (simp add: marked_emails_Cons [of x xs] Un_assoc)
qed

lemma load_dicts_clean:
  assumes "\<forall>r \<in> set (accounts a). \<not> has_invalid_fields (heap a r)"
    and "\<forall>acct \<in> set accts. \<not> has_invalid_fields acct"
  shows "\<forall>r \<in> set (accounts (load_dicts a accts)). \<not> has_invalid_fields (heap (load_dicts a accts) r)"
  using assms
proof (induction accts arbitrary: a)
  case Nil
  then show ?case by simp
next
  case (Cons acct accts)
  let ?a' = "(snd (new_dict a acct))\<lparr>accounts := accounts (snd (new_dict a acct)) @ [fst (new_dict a acct)]\<rparr>"
  have "\<forall>r \<in> set (accounts ?a'). \<not> has_invalid_fields (heap ?a' r)"
    using Cons.prems by (simp add: new_dict_def)
  moreover have "\<forall>x \<in> set accts. \<not> has_invalid_fields x"
    using Cons.prems(2) by simp
  ultimately have "\<forall>r \<in> set (accounts (load_dicts ?a' accts)). \<not> has_invalid_fields (heap (load_dicts ?a' accts) r)"
    by (rule Cons.IH)
  then show ?case by (simp add: new_dict_def)
qed

lemma load_dicts_file: "accounts_file (load_dicts a accts) = accounts_file a"
  by (induction accts arbitrary: a) (simp_all add: new_dict_def)

lemma flags_within_init:
  assumes "\<forall>acct \<in> set (case doc of None \<Rightarrow> [] | Some accts \<Rightarrow> accts). \<not> has_invalid_fields acct"
  shows "flags_within {} (authenticator_of (AccountManager_init doc))"
proof -
  let ?a0 = "\<lparr>heap = (\<lambda>r. blank_account), next_ref = 0, accounts = [], accounts_file = doc,
        token_cache = Map.empty, project_cache = Map.empty\<rparr>"
  let ?accts = "case doc of None \<Rightarrow> [] | Some accts \<Rightarrow> accts"
  have "\<forall>r \<in> set (accounts (load_dicts ?a0 ?accts)). \<not> has_invalid_fields (heap (load_dicts ?a0 ?accts) r)"
    by (rule load_dicts_clean) (use assms in simp_all)
  moreover have "accounts_file (load_dicts ?a0 ?accts) = doc"
    by (simp add: load_dicts_file)
  ultimately show ?thesis
    using assms by (simp add: flags_within_def AccountManager_init_def Authenticator_init_def)
qed

text \<open>
  Claim C2, amended. \<open>mark_invalid\<close> itself does not write the accounts file. Starting
  from a document without the fields \<open>is_invalid\<close> and \<open>invalid_reason\<close>, after every
  sequence of operations an account of the persisted document has one of these fields
  only if \<open>mark_invalid\<close> was called for its email in the sequence; so without a call
  of \<open>mark_invalid\<close> the document never has them.
\<close>

theorem invalid_flag_persistence:
  "accounts_file (authenticator_of (mark_invalid m em reason)) = accounts_file (authenticator_of m)
   \<and> ((\<forall>acct \<in> set (case doc of None \<Rightarrow> [] | Some accts \<Rightarrow> accts). \<not> has_invalid_fields acct) \<longrightarrow>
        (\<forall>acct \<in> set (persisted_accounts (store_run (AccountManager_init doc) ops)).
           has_invalid_fields acct \<longrightarrow> email acct \<in> set (marked_emails ops)))"
proof -
  have unchanged:
    "accounts_file (authenticator_of (mark_invalid m em reason)) = accounts_file (authenticator_of m)"
    by (simp add: mark_invalid_def Let_def split: option.splits)
  have only_marked: "email acct \<in> set (marked_emails ops)"
    if clean: "\<forall>acct \<in> set (case doc of None \<Rightarrow> [] | Some accts \<Rightarrow> accts). \<not> has_invalid_fields acct"
      and mem: "acct \<in> set (persisted_accounts (store_run (AccountManager_init doc) ops))"
      and flagged: "has_invalid_fields acct" for acct
  proof -
    have "flags_within {} (authenticator_of (AccountManager_init doc))"
      using clean by (rule flags_within_init)
    then have "flags_within ({} \<union> set (marked_emails ops))
                 (authenticator_of (store_run (AccountManager_init doc) ops))"
      by (rule flags_within_run)
    then show ?thesis
      using mem flagged by (simp add: flags_within_def persisted_accounts_def)
  qed
  show ?thesis using unchanged only_marked by blast
qed

lemma ab_doc_clean:
  "\<forall>acct \<in> set (case Some ab_doc of None \<Rightarrow> [] | Some accts \<Rightarrow> accts). \<not> has_invalid_fields acct"
  by (simp add: ab_doc_def has_invalid_fields_def)

theorem invalid_flag_persistence_witness:
  "accounts_file (authenticator_of (mark_invalid (AccountManager_init (Some ab_doc)) ''a@x'' ''Auth error''))
     = accounts_file (authenticator_of (AccountManager_init (Some ab_doc)))
   \<and> list_all (\<lambda>acct. is_invalid acct = None \<and> invalid_reason acct = None)
       (persisted_accounts
          (store_run (AccountManager_init (Some ab_doc))
             [GetProject 0 (Some ''p9''), RemoveAccount ''b@x'']))"
proof -
  note t = invalid_flag_persistence [of "AccountManager_init (Some ab_doc)" "''a@x''"
      "''Auth error''" "Some ab_doc" "[GetProject 0 (Some ''p9''), RemoveAccount ''b@x'']"]
  have "\<forall>acct \<in> set (persisted_accounts
          (store_run (AccountManager_init (Some ab_doc))
             [GetProject 0 (Some ''p9''), RemoveAccount ''b@x''])). \<not> has_invalid_fields acct"
    using t ab_doc_clean by simp
  then show ?thesis
    using t by (simp add: list_all_iff has_invalid_fields_def)
qed

section \<open>Generation config: properties\<close>

lemma claude_sonnet_thinking:
  "get_model_family ''claude-sonnet-4.5-thinking'' = Claude"
  "is_thinking_model ''claude-sonnet-4.5-thinking''"
  by code_simp+

lemma gemini_3_flash: "get_model_family ''gemini-3-flash'' = Gemini"
  by code_simp

lemma claude_sonnet: "get_model_family ''claude-sonnet-4.5'' = Claude"
  by code_simp

text \<open>
  Claim C4 as stated (raised exactly when the budget exceeds \<open>max_tokens\<close>, else
  \<open>max_tokens\<close>) fails when the two are equal: with budget 10000 and \<open>max_tokens\<close> 10000
  the result is not 10000.
\<close>

theorem claude_budget_equal_counterexample:
  "\<not> (maxOutputTokens
         (build_generation_config ''claude-sonnet-4.5-thinking''
            \<lparr>max_tokens = Some 10000, temperature = None, top_p = None, stop = None,
             thinking_budget_tokens = Some 10000\<rparr>)
       = (if (10000::int) > 10000 then Some (10000 + 8192) else Some 10000))"
  by code_simp

text \<open>
  Claim C4, amended. For a Claude-family thinking model and a request with thinking
  budget \<open>b\<close> and \<open>max_tokens\<close> \<open>m\<close>, \<open>maxOutputTokens\<close> is \<open>b + 8192\<close> when \<open>m \<le> b\<close> and neither
  is zero, and \<open>m\<close> otherwise.
\<close>

theorem claude_thinking_max_output_tokens:
  assumes "get_model_family model = Claude" and "is_thinking_model model"
    and "max_tokens ps = Some m" and "thinking_budget_tokens ps = Some b"
  shows "maxOutputTokens (build_generation_config model ps)
           = (if b \<noteq> 0 \<and> m \<noteq> 0 \<and> m \<le> b then Some (b + 8192) else Some m)"
  using assms
  by (simp add: build_generation_config_def gc_gemini_cap_def gc_thinking_def gc_plain_def
        get_maxOutputTokens_def)

theorem claude_thinking_max_output_tokens_witness:
  "get_model_family ''claude-sonnet-4.5-thinking'' = Claude
   \<and> is_thinking_model ''claude-sonnet-4.5-thinking''
   \<and> maxOutputTokens
       (build_generation_config ''claude-sonnet-4.5-thinking''
          \<lparr>max_tokens = Some 4096, temperature = None, top_p = None, stop = None,
           thinking_budget_tokens = Some 16000\<rparr>) = Some 24192"
  using claude_thinking_max_output_tokens [OF claude_sonnet_thinking, of
      "\<lparr>max_tokens = Some 4096, temperature = None, top_p = None, stop = None,
         thinking_budget_tokens = Some 16000\<rparr>" 4096 16000]
    claude_sonnet_thinking
  by simp

text \<open>
  Claim C8. For a request with \<open>max_tokens = t > 16384\<close>, \<open>maxOutputTokens\<close> is 16384 for a
  model of the Gemini family; for a model of the Claude family it is not reduced: it
  is \<open>t\<close>, or the thinking budget plus 8192, and at least \<open>t\<close>.
\<close>

theorem gemini_cap_claude_uncapped:
  assumes "max_tokens ps = Some t" and "t > 16384"
  shows "(get_model_family model = Gemini \<longrightarrow>
            maxOutputTokens (build_generation_config model ps) = Some 16384)
       \<and> (get_model_family model = Claude \<longrightarrow>
            (\<exists>v. maxOutputTokens (build_generation_config model ps) = Some v \<and> t \<le> v
                 \<and> (v = t \<or> (\<exists>b. thinking_budget_tokens ps = Some b \<and> v = b + 8192))))"
  using assms
  by (auto simp: build_generation_config_def gc_gemini_cap_def gc_thinking_def gc_plain_def
        get_maxOutputTokens_def GEMINI_MAX_OUTPUT_TOKENS_def split: option.splits)

theorem gemini_cap_claude_uncapped_witness:
  "max_tokens \<lparr>max_tokens = Some 20000, temperature = None, top_p = None, stop = None,
         thinking_budget_tokens = None\<rparr> = Some 20000 \<and> (20000::int) > 16384
   \<and> get_model_family ''gemini-3-flash'' = Gemini
   \<and> maxOutputTokens (build_generation_config ''gemini-3-flash''
        \<lparr>max_tokens = Some 20000, temperature = None, top_p = None, stop = None,
         thinking_budget_tokens = None\<rparr>) = Some 16384
   \<and> get_model_family ''claude-sonnet-4.5'' = Claude
   \<and> maxOutputTokens (build_generation_config ''claude-sonnet-4.5''
        \<lparr>max_tokens = Some 20000, temperature = None, top_p = None, stop = None,
         thinking_budget_tokens = None\<rparr>) = Some 20000"
  using gemini_cap_claude_uncapped [of "\<lparr>max_tokens = Some 20000, temperature = None,
         top_p = None, stop = None, thinking_budget_tokens = None\<rparr>" 20000 "''gemini-3-flash''"]
    gemini_cap_claude_uncapped [of "\<lparr>max_tokens = Some 20000, temperature = None,
         top_p = None, stop = None, thinking_budget_tokens = None\<rparr>" 20000 "''claude-sonnet-4.5''"]
    gemini_3_flash claude_sonnet
  by simp

section \<open>Response translation: properties\<close>

lemma text_of_blocks_acc: "text_of_blocks bs acc = acc @ text_of_blocks bs []"
proof (induction bs arbitrary: acc)
  case Nil
  show ?case by simp
next
  case (Cons b bs)
  show ?case
  proof (cases b)
    case (TextBlock t)
    have "text_of_blocks (b # bs) acc = text_of_blocks bs (acc @ t)"
      using TextBlock by simp
    also have "\<dots> = (acc @ t) @ text_of_blocks bs []"
      by (rule Cons.IH)
    also have "\<dots> = acc @ text_of_blocks bs ([] @ t)"
      using Cons.IH [of "[] @ t"] by simp
    finally show ?thesis using TextBlock by simp
  next
    case (ThinkingBlock t sg)
    then show ?thesis using Cons.IH [of acc] by simp
  qed
qed

lemma text_of_blocks_append:
  "text_of_blocks (xs @ ys) [] = text_of_blocks xs [] @ text_of_blocks ys []"
proof (induction xs)
  case Nil
  show ?case by simp
next
  case (Cons b xs)
  show ?case
  proof (cases b)
    case (TextBlock t)
    have "text_of_blocks ((b # xs) @ ys) [] = t @ text_of_blocks (xs @ ys) []"
      using TextBlock text_of_blocks_acc [of "xs @ ys" t] by simp
    moreover have "text_of_blocks (b # xs) [] = t @ text_of_blocks xs []"
      using TextBlock text_of_blocks_acc [of xs t] by simp
    ultimately show ?thesis using Cons.IH by simp
  next
    case (ThinkingBlock t sg)
    then show ?thesis using Cons.IH by simp
  qed
qed

lemma parts_loop_text:
  "text_of_blocks (fst (parts_loop dumps hex i ps (cb, tcs, h))) []
     = text_of_blocks cb [] @ joined_text ps"
proof (induction ps arbitrary: i cb tcs h)
  case Nil
  show ?case by (simp add: joined_text_def)
next
  case (Cons p ps)
  show ?case
    by (cases "part_text p"; cases "functionCall p"; cases "thought p")
       (simp_all add: Cons.IH text_of_blocks_append joined_text_def)
qed

text \<open>
  Claim C5 as stated (an empty concatenation without tool calls yields the empty
  string, not null) fails: for a response without candidates the message has no tool
  calls and its content is not the empty string.
\<close>

theorem response_content_null_counterexample:
  "\<not> (content (choice_message
          (convert_google_response_to_openai (\<lambda>a. ''{}'') (\<lambda>i. ''00'') ''ff'' 0
             \<lparr>candidates = [], usageMetadata = None\<rparr> ''gemini-3-flash'')) = Some [])
   \<and> tool_calls (choice_message
          (convert_google_response_to_openai (\<lambda>a. ''{}'') (\<lambda>i. ''00'') ''ff'' 0
             \<lparr>candidates = [], usageMetadata = None\<rparr> ''gemini-3-flash'')) = None"
  by (simp add: convert_google_response_to_openai_def first_candidate_parts_def)

text \<open>
  Claim C5, amended. The content of the assistant message is the concatenation of the
  texts of all non-thought text parts when that concatenation is not empty, and null
  whenever it is empty, with or without tool calls.
\<close>

theorem response_content:
  "content (choice_message (convert_google_response_to_openai dumps hex hex16 now response model))
     = (if joined_text (first_candidate_parts response) = [] then None
        else Some (joined_text (first_candidate_parts response)))"
proof -
  obtain cb tcs h where pl:
    "parts_loop dumps hex 0 (first_candidate_parts response) ([], [], False) = (cb, tcs, h)"
    by (cases "parts_loop dumps hex 0 (first_candidate_parts response) ([], [], False)") auto
  have "text_of_blocks cb [] = joined_text (first_candidate_parts response)"
    using parts_loop_text [of dumps hex 0 "first_candidate_parts response" "[]" "[]" False] pl
    by simp
  then show ?thesis
    by (simp add: convert_google_response_to_openai_def pl Let_def)
qed

section \<open>Schema sanitizer: properties\<close>

lemma type_not_dropped: "''type'' \<notin> set dropped_keys"
  by (simp add: dropped_keys_def)

lemma sanitize_loop_append:
  "sanitize_loop (xs @ ys) = sanitize_loop xs @ sanitize_loop ys"
proof (induction xs)
  case Nil
  show ?case by simp
next
  case (Cons kv xs)
  obtain key v where kv: "kv = (key, v)" by (cases kv) auto
  show ?case
    unfolding kv using Cons.IH by simp
qed

lemma sanitize_loop_type_entry:
  "sanitize_loop [(''type'', JStr ''object'')] = [(''type'', JStr ''object'')]"
  using type_not_dropped by simp

lemma sanitize_schema_dict: "\<exists>r. sanitize_schema s = JObj r"
  by (cases s) (simp_all add: Let_def)

lemma sanitize_idem:
  "sanitize_schema (sanitize_schema s) = sanitize_schema s"
  "sanitize_loop (sanitize_loop kvs) = sanitize_loop kvs"
  "sanitize_loop (sanitize_entry key v) = sanitize_entry key v"
  "sanitize_values (sanitize_values ps) = sanitize_values ps"
proof (induction s and kvs and key v and ps
    rule: sanitize_schema_sanitize_loop_sanitize_entry_sanitize_values.induct)
  case (1 kvs)
  let ?r = "sanitize_loop kvs"
  show ?case
  proof (cases "''type'' \<in> set (map fst ?r)")
    case True
    then show ?thesis using 1 by (simp add: Let_def)
  next
    case False
    have "sanitize_loop (?r @ [(''type'', JStr ''object'')]) = ?r @ [(''type'', JStr ''object'')]"
      using 1 by (simp only: sanitize_loop_append sanitize_loop_type_entry)
    then show ?thesis using False by (simp add: Let_def)
  qed
next
  case (4 key v rest)
  then show ?case by (simp add: sanitize_loop_append)
next
  case (5 key vs)
  show ?case
  proof (cases "key \<in> set dropped_keys")
    case True
    then show ?thesis by simp
  next
    case nd: False
    show ?thesis
    proof (cases "key = ''properties''")
      case True
      then show ?thesis using nd 5(1) by simp
    next
      case False
      obtain r where r: "sanitize_schema (JObj vs) = JObj r"
        using sanitize_schema_dict by blast
      have "sanitize_schema (JObj r) = JObj r"
        using 5(2) [OF nd False] r by simp
      then have "sanitize_loop [(key, JObj r)] = [(key, JObj r)]"
        using nd False by simp
      moreover have "sanitize_entry key (JObj vs) = [(key, JObj r)]"
        using nd False r by simp
      ultimately show ?thesis by simp
    qed
  qed
qed simp_all

text \<open>
  Claim C10. The schema sanitizer is idempotent: sanitizing a sanitized schema changes
  nothing, for every schema value.
\<close>

theorem sanitize_schema_idempotent:
  "sanitize_schema (sanitize_schema s) = sanitize_schema s"
  by (rule sanitize_idem(1))

end
